theory Spec2Isabelle
  imports Main "HOL-Library.AList"
begin

section \<open>Values, iterator objects and the heap\<close>

text \<open>
  The library is dynamically typed: a source, an item and the result of an operator are
  all JavaScript values. \<open>val\<close> holds the shapes the library probes for: the absent
  value, \<open>null\<close>, numbers (integers here), strings, booleans, arrays, plain objects
  (their own enumerable properties in enumeration order), \<open>Map\<close>s (entries in insertion
  order) and references to iterator objects. \<open>Obj\<close> is an object that inherits the
  accessor \<open>__proto__\<close> of \<open>Object.prototype\<close>, as an object literal does;
  \<open>BareObj\<close> is one that does not, as after \<open>o.__proto__ = null\<close>. Arrays, objects
  and maps are immutable values in this model, and each occurrence of one stands for an
  object of its own; only iterator objects live in the heap, since every operator observes
  and advances them through their identity.
\<close>

type_synonym addr = nat

datatype val =
    Undefined
  | Null
  | Num int
  | Str string
  | Bool bool
  | Arr "val list"
  | Obj "(string \<times> val) list"
  | BareObj "(string \<times> val) list"
  | MapV "(val \<times> val) list"
  | Ref addr

datatype error = TypeError

text \<open>
  The state of an iterator object. \<open>ArrayIterator\<close> is the host's iterator over the
  remaining items of an array, a string or a map. Every other constructor is a suspended
  generator of the library: \<open>...Start\<close> is a generator that was created and never
  resumed (it holds the arguments of the call), the other constructors hold the local
  variables at the \<open>yield\<close> the generator is suspended at, \<open>Completed\<close> is a generator
  that returned or threw.
\<close>

datatype gen =
    ArrayIterator "val list"
  | IterateStart "val \<Rightarrow> val" val
  | IterateYield "val \<Rightarrow> val" val
  | TakeStart int val
  | TakeYield int addr int
  | DropWhileStart "val \<Rightarrow> bool" val
  | DropWhileYield "val \<Rightarrow> bool" addr
  | MapStart "val \<Rightarrow> val" val
  | MapYield "val \<Rightarrow> val" addr
  | TapStart "val \<Rightarrow> unit" val
  | TapYield "val \<Rightarrow> unit" addr
  | FilterStart "val \<Rightarrow> bool" val
  | FilterYield "val \<Rightarrow> bool" addr
  | RemoveStart "val \<Rightarrow> bool" val
  | RemoveYield "val \<Rightarrow> bool" addr
  | ZipStart "val list"
  | ZipYield "addr list"
  | InterleaveStart "val list"
  | InterleaveYield "val list" "val list"
  | FlattenStart val
  | FlattenFor addr
  | FlattenDeleg addr addr
  | InterposeStart val val
  | InterposeSeparator val addr val
  | InterposeItem val addr
  | Completed

text \<open>
  A heap cell is an iterator object's state and the number of times its \<open>next\<close> method
  has been called. An address is an index into the heap; allocation appends. An address
  outside the heap reads as a completed generator that was never pulled; the library never
  holds one.
\<close>

type_synonym heap = "(gen \<times> nat) list"

definition state_of :: "heap \<Rightarrow> addr \<Rightarrow> gen" where
  "state_of h a = (if a < length h then fst (h ! a) else Completed)"

definition pulls_of :: "heap \<Rightarrow> addr \<Rightarrow> nat" where
  "pulls_of h a = (if a < length h then snd (h ! a) else 0)"

definition set_state :: "addr \<Rightarrow> gen \<Rightarrow> heap \<Rightarrow> heap" where
  "set_state a g h = h[a := (g, pulls_of h a)]"

definition count_pull :: "addr \<Rightarrow> heap \<Rightarrow> heap" where
  "count_pull a h = h[a := (state_of h a, Suc (pulls_of h a))]"

text \<open>
  The outcome of a call: it returns a value, throws, or does not return within the fuel
  it was given (\<open>OutOfFuel\<close>; only loops and calls through the heap consume fuel).
\<close>

datatype 'a result = Return 'a heap | Throw error heap | OutOfFuel

definition and_then :: "'a result \<Rightarrow> ('a \<Rightarrow> heap \<Rightarrow> 'b result) \<Rightarrow> 'b result" where
  "and_then r k = (case r of Return v h \<Rightarrow> k v h | Throw e h \<Rightarrow> Throw e h | OutOfFuel \<Rightarrow> OutOfFuel)"

definition alloc :: "gen \<Rightarrow> heap \<Rightarrow> addr result" where
  "alloc g h = Return (length h) (h @ [(g, 0)])"

datatype iter_result = IterValue val | IterDone

definition is_done :: "iter_result \<Rightarrow> bool" where
  "is_done r = (case r of IterDone \<Rightarrow> True | IterValue v \<Rightarrow> False)"

definition value_of :: "iter_result \<Rightarrow> val" where
  "value_of r = (case r of IterDone \<Rightarrow> Undefined | IterValue v \<Rightarrow> v)"

section \<open>The source normalizer\<close>

text \<open>
  \<open>typeof o["next"] === "function"\<close>: reading a property of \<open>undefined\<close> or \<open>null\<close>
  throws; of the other values only iterator objects have a \<open>next\<close> method.
\<close>

fun typeof_next_is_function :: "val \<Rightarrow> error + bool" where
  "typeof_next_is_function Undefined = Inl TypeError"
| "typeof_next_is_function Null = Inl TypeError"
| "typeof_next_is_function (Ref a) = Inr True"
| "typeof_next_is_function v = Inr False"

text \<open>
  \<open>o[Symbol.iterator]()\<close>: arrays, strings and maps create a fresh iterator, an iterator
  object returns itself, every other value has no such method.
\<close>

fun get_iterator :: "val \<Rightarrow> heap \<Rightarrow> addr result" where
  "get_iterator (Arr xs) h = alloc (ArrayIterator xs) h"
| "get_iterator (Str s) h = alloc (ArrayIterator (map (\<lambda>c. Str [c]) s)) h"
| "get_iterator (MapV es) h = alloc (ArrayIterator (map (\<lambda>(k, v). Arr [k, v]) es)) h"
| "get_iterator (Ref a) h = Return a h"
| "get_iterator v h = Throw TypeError h"

text \<open>\<open>Object.entries(o)\<close> for the values that reach the fallback of \<open>iter\<close>.\<close>

fun object_entries :: "val \<Rightarrow> val list" where
  "object_entries (Obj ps) = map (\<lambda>(k, v). Arr [Str k, v]) ps"
| "object_entries (BareObj ps) = map (\<lambda>(k, v). Arr [Str k, v]) ps"
| "object_entries v = []"

text \<open>
  \<open>iter\<close> (lines 22-38). The test for \<open>undefined\<close> comes first; the read of
  \<open>iterable["next"]\<close> on line 29 stands outside the \<open>try\<close> block, so on \<open>null\<close> it
  throws; an iterator object is returned as it is; otherwise the value's own iterator is
  asked for, and when that throws the entries of the value are iterated.
\<close>

definition iter :: "val \<Rightarrow> heap \<Rightarrow> addr result" where
  "iter iterable h =
     (if iterable = Undefined then alloc (ArrayIterator []) h
      else case typeof_next_is_function iterable of
          Inl e \<Rightarrow> Throw e h
        | Inr has_next \<Rightarrow>
            (case (has_next, iterable) of
               (True, Ref a) \<Rightarrow> Return a h
             | _ \<Rightarrow>
                (case get_iterator iterable h of
                   Return a h' \<Rightarrow> Return a h'
                 | Throw e h' \<Rightarrow> alloc (ArrayIterator (object_entries iterable)) h
                 | OutOfFuel \<Rightarrow> OutOfFuel)))"

section \<open>The composition engine\<close>

text \<open>
  An operator is any function of the library or of the caller: it takes a value and may
  read and change the heap, throw, or not return.
\<close>

type_synonym operator = "val \<Rightarrow> heap \<Rightarrow> val result"

text \<open>
  The inner function \<open>f\<close> of \<open>pipe\<close> (lines 53-61), called on the reversed operator
  list. On the empty list \<open>first\<close> is \<open>undefined\<close> and \<open>rest\<close> is empty, so
  \<open>first(itr)\<close> is a call of \<open>undefined\<close>.
\<close>

fun pipe_f :: "addr \<Rightarrow> operator list \<Rightarrow> heap \<Rightarrow> val result" where
  "pipe_f itr [] h = Throw TypeError h"
| "pipe_f itr [first] h = first (Ref itr) h"
| "pipe_f itr (first # rest) h = and_then (pipe_f itr rest h) first"

definition pipe :: "val \<Rightarrow> operator list \<Rightarrow> heap \<Rightarrow> val result" where
  "pipe iterable operators h = and_then (iter iterable h) (\<lambda>itr. pipe_f itr (rev operators))"

text \<open>
  The contract of the specification: \<open>opN(...(op2(op1(source))))\<close>, the operators
  applied one after the other in the order listed.
\<close>

fun nested_application :: "operator list \<Rightarrow> val \<Rightarrow> heap \<Rightarrow> val result" where
  "nested_application [] v h = Return v h"
| "nested_application (op1 # ops) v h = and_then (op1 v h) (nested_application ops)"

section \<open>The pull protocol\<close>

text \<open>
  The \<open>return\<close> method of a generator, which a \<open>for...of\<close> loop calls when it is left
  by \<open>return\<close> or by an exception. A suspended generator completes; one that is
  suspended inside a \<open>for...of\<close> loop of its own (\<open>dropWhile\<close>, \<open>map\<close>, \<open>tap\<close>,
  \<open>filter\<close>, \<open>remove\<close>, \<open>flatten\<close>, \<open>interpose\<close>) closes the
  iterator of that loop on the way out, and \<open>flatten\<close> suspended in \<open>yield*\<close> closes
  the generator it delegates to first. The host's array iterators have no \<open>return\<close>
  method and are left as they are.
\<close>

fun gen_return :: "nat \<Rightarrow> addr \<Rightarrow> heap \<Rightarrow> unit result" where
  "gen_return 0 a h = OutOfFuel"
| "gen_return (Suc n) a h =
     (case state_of h a of
        ArrayIterator xs \<Rightarrow> Return () h
      | DropWhileYield p s \<Rightarrow> gen_return n s (set_state a Completed h)
      | MapYield f s \<Rightarrow> gen_return n s (set_state a Completed h)
      | TapYield f s \<Rightarrow> gen_return n s (set_state a Completed h)
      | FilterYield p s \<Rightarrow> gen_return n s (set_state a Completed h)
      | RemoveYield p s \<Rightarrow> gen_return n s (set_state a Completed h)
      | InterposeSeparator sep s it \<Rightarrow> gen_return n s (set_state a Completed h)
      | InterposeItem sep s \<Rightarrow> gen_return n s (set_state a Completed h)
      | FlattenFor s \<Rightarrow> gen_return n s (set_state a Completed h)
      | FlattenDeleg s c \<Rightarrow>
          and_then (gen_return n c (set_state a Completed h)) (\<lambda>u. gen_return n s)
      | _ \<Rightarrow> Return () (set_state a Completed h))"

text \<open>How a generator's call of \<open>next\<close> ends: at a \<open>yield\<close>, by returning, by throwing.\<close>

definition yield :: "addr \<Rightarrow> gen \<Rightarrow> val \<Rightarrow> heap \<Rightarrow> iter_result result" where
  "yield self st v h = Return (IterValue v) (set_state self st h)"

definition finish :: "addr \<Rightarrow> heap \<Rightarrow> iter_result result" where
  "finish self h = Return IterDone (set_state self Completed h)"

definition fail :: "addr \<Rightarrow> error \<Rightarrow> heap \<Rightarrow> iter_result result" where
  "fail self e h = Throw e (set_state self Completed h)"

text \<open>
  \<open>Array.prototype.map\<close> with a callback that acts on the heap: the callback runs on
  every element in order, and an exception ends the whole call.
\<close>

fun array_map :: "('a \<Rightarrow> heap \<Rightarrow> 'b result) \<Rightarrow> 'a list \<Rightarrow> heap \<Rightarrow> 'b list result" where
  "array_map f [] h = Return [] h"
| "array_map f (x # xs) h =
     and_then (f x h) (\<lambda>y h'. and_then (array_map f xs h') (\<lambda>ys h''. Return (y # ys) h''))"

text \<open>
  The loop of \<open>take\<close> (lines 116-122), entered with the loop variable \<open>i\<close>;
  \<open>pull\<close> is the \<open>next\<close> method.
\<close>

definition take_loop ::
  "addr \<Rightarrow> int \<Rightarrow> addr \<Rightarrow> int \<Rightarrow> (addr \<Rightarrow> heap \<Rightarrow> iter_result result) \<Rightarrow> heap \<Rightarrow> iter_result result" where
  "take_loop self numItemsToTake itr i pull h =
     (if i < numItemsToTake then
        (case pull itr h of
           Return (IterValue v) h' \<Rightarrow> yield self (TakeYield numItemsToTake itr i) v h'
         | Return IterDone h' \<Rightarrow> finish self h'
         | Throw e h' \<Rightarrow> fail self e h'
         | OutOfFuel \<Rightarrow> OutOfFuel)
      else finish self h)"

text \<open>One round of the \<open>for...of\<close> loop of \<open>map\<close> (lines 218-220).\<close>

definition map_loop ::
  "addr \<Rightarrow> (val \<Rightarrow> val) \<Rightarrow> addr \<Rightarrow> (addr \<Rightarrow> heap \<Rightarrow> iter_result result) \<Rightarrow> heap \<Rightarrow> iter_result result" where
  "map_loop self mapFn itr pull h =
     (case pull itr h of
        Return (IterValue v) h' \<Rightarrow> yield self (MapYield mapFn itr) (mapFn v) h'
      | Return IterDone h' \<Rightarrow> finish self h'
      | Throw e h' \<Rightarrow> fail self e h'
      | OutOfFuel \<Rightarrow> OutOfFuel)"

text \<open>
  One round of the \<open>for...of\<close> loop of \<open>tap\<close> (lines 230-233); the side effect of
  \<open>sideEffectFn\<close> is outside the model.
\<close>

definition tap_loop ::
  "addr \<Rightarrow> (val \<Rightarrow> unit) \<Rightarrow> addr \<Rightarrow> (addr \<Rightarrow> heap \<Rightarrow> iter_result result) \<Rightarrow> heap \<Rightarrow> iter_result result" where
  "tap_loop self sideEffectFn itr pull h =
     (case pull itr h of
        Return (IterValue it) h' \<Rightarrow>
          (let u = sideEffectFn it in yield self (TapYield sideEffectFn itr) it h')
      | Return IterDone h' \<Rightarrow> finish self h'
      | Throw e h' \<Rightarrow> fail self e h'
      | OutOfFuel \<Rightarrow> OutOfFuel)"

text \<open>
  One round of the \<open>for...of\<close> loop of \<open>interpose\<close> (lines 562-570), entered
  with the variable \<open>first\<close>: after the first item the separator is yielded, with the
  item kept for the \<open>yield\<close> that follows.
\<close>

definition interpose_loop ::
  "addr \<Rightarrow> val \<Rightarrow> bool \<Rightarrow> addr \<Rightarrow> (addr \<Rightarrow> heap \<Rightarrow> iter_result result) \<Rightarrow> heap \<Rightarrow> iter_result result" where
  "interpose_loop self separator first itr pull h =
     (case pull itr h of
        Return (IterValue it) h' \<Rightarrow>
          (if \<not> first then yield self (InterposeSeparator separator itr it) separator h'
           else yield self (InterposeItem separator itr) it h')
      | Return IterDone h' \<Rightarrow> finish self h'
      | Throw e h' \<Rightarrow> fail self e h'
      | OutOfFuel \<Rightarrow> OutOfFuel)"

text \<open>One round of the \<open>while\<close> loop of \<open>zip\<close> (lines 435-439).\<close>

definition zip_loop ::
  "addr \<Rightarrow> addr list \<Rightarrow> (addr \<Rightarrow> heap \<Rightarrow> iter_result result) \<Rightarrow> heap \<Rightarrow> iter_result result" where
  "zip_loop self iters pull h =
     (case array_map pull iters h of
        Return nextItems h' \<Rightarrow>
          (if list_ex is_done nextItems then finish self h'
           else yield self (ZipYield iters) (Arr (map value_of nextItems)) h')
      | Throw e h' \<Rightarrow> fail self e h'
      | OutOfFuel \<Rightarrow> OutOfFuel)"

text \<open>
  \<open>isArrayOrIter\<close> (lines 524-526): \<open>instanceof Array\<close> decides for an array before
  any property is read; for every other value \<open>o["next"]\<close> is read.
\<close>

definition isArrayOrIter :: "val \<Rightarrow> error + bool" where
  "isArrayOrIter v = (case v of Arr xs \<Rightarrow> Inr True | _ \<Rightarrow> typeof_next_is_function v)"

text \<open>
  \<open>yield*\<close> in \<open>flatten\<close>: the outcome \<open>r\<close> of pulling the inner generator \<open>c\<close> is
  passed on while it yields; when it is done the \<open>for...of\<close> loop goes on
  (\<open>continue\<close>); an exception leaves the loop, which closes its iterator.
\<close>

definition flatten_delegate ::
  "nat \<Rightarrow> addr \<Rightarrow> addr \<Rightarrow> addr \<Rightarrow> iter_result result \<Rightarrow> (heap \<Rightarrow> iter_result result) \<Rightarrow> iter_result result" where
  "flatten_delegate n self itr c r continue =
     (case r of
        Return (IterValue v) h \<Rightarrow> yield self (FlattenDeleg itr c) v h
      | Return IterDone h \<Rightarrow> continue h
      | Throw e h \<Rightarrow> and_then (gen_return n itr h) (\<lambda>u. fail self e)
      | OutOfFuel \<Rightarrow> OutOfFuel)"

text \<open>
  \<open>next\<close> on the iterator object at address \<open>a\<close>. The call is counted, then the
  object's code runs from where it is suspended to its next \<open>yield\<close> or to its end.
  The other functions are the loops that can run for any number of rounds before they
  yield: the \<open>for...of\<close> loops of \<open>dropWhile\<close> (lines 153-158, entered with the
  variable \<open>dropEnded\<close>), \<open>filter\<close> (lines 248-252) and \<open>remove\<close> (lines 267-271),
  the \<open>while\<close> loop of \<open>interleave\<close> (lines 447-458), which normalizes every source
  again in each round, and the \<open>for...of\<close> loop of \<open>flatten\<close> (lines 535-541).
\<close>

function (sequential) iter_next :: "nat \<Rightarrow> addr \<Rightarrow> heap \<Rightarrow> iter_result result"
  and dropWhile_loop :: "nat \<Rightarrow> addr \<Rightarrow> (val \<Rightarrow> bool) \<Rightarrow> bool \<Rightarrow> addr \<Rightarrow> heap \<Rightarrow> iter_result result"
  and filter_loop :: "nat \<Rightarrow> addr \<Rightarrow> (val \<Rightarrow> bool) \<Rightarrow> addr \<Rightarrow> heap \<Rightarrow> iter_result result"
  and remove_loop :: "nat \<Rightarrow> addr \<Rightarrow> (val \<Rightarrow> bool) \<Rightarrow> addr \<Rightarrow> heap \<Rightarrow> iter_result result"
  and interleave_loop :: "nat \<Rightarrow> addr \<Rightarrow> val list \<Rightarrow> heap \<Rightarrow> iter_result result"
  and flatten_loop :: "nat \<Rightarrow> addr \<Rightarrow> addr \<Rightarrow> heap \<Rightarrow> iter_result result" where
  "iter_next 0 a h = OutOfFuel"
| "iter_next (Suc n) a h =
     (let h1 = count_pull a h in
      case state_of h a of
        ArrayIterator xs \<Rightarrow>
          (case xs of
             [] \<Rightarrow> Return IterDone h1
           | x # rest \<Rightarrow> Return (IterValue x) (set_state a (ArrayIterator rest) h1))
      | IterateStart itrFn initialValue \<Rightarrow> yield a (IterateYield itrFn initialValue) initialValue h1
      | IterateYield itrFn i \<Rightarrow> yield a (IterateYield itrFn (itrFn i)) (itrFn i) h1
      | TakeStart numItemsToTake iterable \<Rightarrow>
          (case iter iterable h1 of
             Return itr h2 \<Rightarrow> take_loop a numItemsToTake itr 0 (iter_next n) h2
           | Throw e h2 \<Rightarrow> fail a e h2
           | OutOfFuel \<Rightarrow> OutOfFuel)
      | TakeYield numItemsToTake itr i \<Rightarrow> take_loop a numItemsToTake itr (i + 1) (iter_next n) h1
      | DropWhileStart predFn iterable \<Rightarrow>
          (case iter iterable h1 of
             Return itr h2 \<Rightarrow> dropWhile_loop n a predFn False itr h2
           | Throw e h2 \<Rightarrow> fail a e h2
           | OutOfFuel \<Rightarrow> OutOfFuel)
      | DropWhileYield predFn itr \<Rightarrow> dropWhile_loop n a predFn True itr h1
      | MapStart mapFn iterable \<Rightarrow>
          (case iter iterable h1 of
             Return itr h2 \<Rightarrow> map_loop a mapFn itr (iter_next n) h2
           | Throw e h2 \<Rightarrow> fail a e h2
           | OutOfFuel \<Rightarrow> OutOfFuel)
      | MapYield mapFn itr \<Rightarrow> map_loop a mapFn itr (iter_next n) h1
      | TapStart sideEffectFn iterable \<Rightarrow>
          (case iter iterable h1 of
             Return itr h2 \<Rightarrow> tap_loop a sideEffectFn itr (iter_next n) h2
           | Throw e h2 \<Rightarrow> fail a e h2
           | OutOfFuel \<Rightarrow> OutOfFuel)
      | TapYield sideEffectFn itr \<Rightarrow> tap_loop a sideEffectFn itr (iter_next n) h1
      | FilterStart predFn iterable \<Rightarrow>
          (case iter iterable h1 of
             Return itr h2 \<Rightarrow> filter_loop n a predFn itr h2
           | Throw e h2 \<Rightarrow> fail a e h2
           | OutOfFuel \<Rightarrow> OutOfFuel)
      | FilterYield predFn itr \<Rightarrow> filter_loop n a predFn itr h1
      | RemoveStart predFn iterable \<Rightarrow>
          (case iter iterable h1 of
             Return itr h2 \<Rightarrow> remove_loop n a predFn itr h2
           | Throw e h2 \<Rightarrow> fail a e h2
           | OutOfFuel \<Rightarrow> OutOfFuel)
      | RemoveYield predFn itr \<Rightarrow> remove_loop n a predFn itr h1
      | ZipStart iterators \<Rightarrow>
          (case array_map iter iterators h1 of
             Return iters h2 \<Rightarrow> zip_loop a iters (iter_next n) h2
           | Throw e h2 \<Rightarrow> fail a e h2
           | OutOfFuel \<Rightarrow> OutOfFuel)
      | ZipYield iters \<Rightarrow> zip_loop a iters (iter_next n) h1
      | InterleaveStart iterators \<Rightarrow> interleave_loop n a iterators h1
      | InterleaveYield iterators nextValues \<Rightarrow>
          (case nextValues of
             [] \<Rightarrow> interleave_loop n a iterators h1
           | v # rest \<Rightarrow> yield a (InterleaveYield iterators rest) v h1)
      | FlattenStart iterable \<Rightarrow>
          (case get_iterator iterable h1 of
             Return itr h2 \<Rightarrow> flatten_loop n a itr h2
           | Throw e h2 \<Rightarrow> fail a e h2
           | OutOfFuel \<Rightarrow> OutOfFuel)
      | FlattenFor itr \<Rightarrow> flatten_loop n a itr h1
      | FlattenDeleg itr c \<Rightarrow>
          flatten_delegate n a itr c (iter_next n c h1) (flatten_loop n a itr)
      | InterposeStart separator iterable \<Rightarrow>
          (case iter iterable h1 of
             Return itr h2 \<Rightarrow> interpose_loop a separator True itr (iter_next n) h2
           | Throw e h2 \<Rightarrow> fail a e h2
           | OutOfFuel \<Rightarrow> OutOfFuel)
      | InterposeSeparator separator itr it \<Rightarrow> yield a (InterposeItem separator itr) it h1
      | InterposeItem separator itr \<Rightarrow> interpose_loop a separator False itr (iter_next n) h1
      | Completed \<Rightarrow> Return IterDone h1)"
| "dropWhile_loop 0 self predFn dropEnded itr h = OutOfFuel"
| "dropWhile_loop (Suc n) self predFn dropEnded itr h =
     (case iter_next n itr h of
        Return (IterValue it) h' \<Rightarrow>
          (if \<not> predFn it \<or> dropEnded then yield self (DropWhileYield predFn itr) it h'
           else dropWhile_loop n self predFn dropEnded itr h')
      | Return IterDone h' \<Rightarrow> finish self h'
      | Throw e h' \<Rightarrow> fail self e h'
      | OutOfFuel \<Rightarrow> OutOfFuel)"
| "filter_loop 0 self predFn itr h = OutOfFuel"
| "filter_loop (Suc n) self predFn itr h =
     (case iter_next n itr h of
        Return (IterValue it) h' \<Rightarrow>
          (if predFn it then yield self (FilterYield predFn itr) it h'
           else filter_loop n self predFn itr h')
      | Return IterDone h' \<Rightarrow> finish self h'
      | Throw e h' \<Rightarrow> fail self e h'
      | OutOfFuel \<Rightarrow> OutOfFuel)"
| "remove_loop 0 self predFn itr h = OutOfFuel"
| "remove_loop (Suc n) self predFn itr h =
     (case iter_next n itr h of
        Return (IterValue it) h' \<Rightarrow>
          (if \<not> predFn it then yield self (RemoveYield predFn itr) it h'
           else remove_loop n self predFn itr h')
      | Return IterDone h' \<Rightarrow> finish self h'
      | Throw e h' \<Rightarrow> fail self e h'
      | OutOfFuel \<Rightarrow> OutOfFuel)"
| "interleave_loop 0 self iterators h = OutOfFuel"
| "interleave_loop (Suc n) self iterators h =
     (case array_map (\<lambda>itr h'. and_then (iter itr h') (iter_next n)) iterators h of
        Return nextItems h' \<Rightarrow>
          (if list_ex is_done nextItems then finish self h'
           else case map value_of nextItems of
               [] \<Rightarrow> interleave_loop n self iterators h'
             | v # rest \<Rightarrow> yield self (InterleaveYield iterators rest) v h')
      | Throw e h' \<Rightarrow> fail self e h'
      | OutOfFuel \<Rightarrow> OutOfFuel)"
| "flatten_loop 0 self itr h = OutOfFuel"
| "flatten_loop (Suc n) self itr h =
     (case iter_next n itr h of
        Return (IterValue it) h' \<Rightarrow>
          (case isArrayOrIter it of
             Inl e \<Rightarrow> and_then (gen_return n itr h') (\<lambda>u. fail self e)
           | Inr True \<Rightarrow>
               (case and_then (iter it h') (\<lambda>inner. alloc (FlattenStart (Ref inner))) of
                  Return c h2 \<Rightarrow>
                    flatten_delegate n self itr c (iter_next n c h2) (flatten_loop n self itr)
                | Throw e h2 \<Rightarrow> and_then (gen_return n itr h2) (\<lambda>u. fail self e)
                | OutOfFuel \<Rightarrow> OutOfFuel)
           | Inr False \<Rightarrow> yield self (FlattenFor itr) it h')
      | Return IterDone h' \<Rightarrow> finish self h'
      | Throw e h' \<Rightarrow> fail self e h'
      | OutOfFuel \<Rightarrow> OutOfFuel)"
  by pat_completeness auto

text \<open>Every call passes on less fuel than it was given.\<close>

termination
  by (relation "measure (case_sum (case_sum fst (case_sum fst fst))
                           (case_sum fst (case_sum fst fst)))")
    simp_all

section \<open>Sources and lazy operators\<close>

text \<open>
  Calling a generator function runs none of its body: it creates a generator object that
  holds the arguments. \<open>iterate\<close>, \<open>take(n)\<close>, \<open>dropWhile(pred)\<close>, \<open>map(f)\<close>,
  \<open>tap(fn)\<close>, \<open>filter(pred)\<close>, \<open>remove(pred)\<close>, \<open>interpose(sep)\<close>, \<open>zip\<close>,
  \<open>interleave\<close> and \<open>flatten\<close> are generator functions (the inner function \<open>f\<close> of
  \<open>flatten\<close> is one, and \<open>flatten\<close> only calls it). The names \<open>take\<close>, \<open>drop\<close>,
  \<open>dropWhile\<close>, \<open>map\<close>, \<open>filter\<close>, \<open>remove\<close>, \<open>zip\<close> and \<open>range\<close> carry the
  suffix \<open>_op\<close> here. The functions a caller passes to them (\<open>itrFn\<close>, \<open>mapFn\<close>,
  \<open>predFn\<close>, \<open>sideEffectFn\<close>) are functions on values: they neither throw nor touch
  an iterator.
\<close>

definition new_generator :: "gen \<Rightarrow> heap \<Rightarrow> val result" where
  "new_generator g h = and_then (alloc g h) (\<lambda>a. Return (Ref a))"

definition iterate :: "(val \<Rightarrow> val) \<Rightarrow> val \<Rightarrow> heap \<Rightarrow> val result" where
  "iterate itrFn initialValue = new_generator (IterateStart itrFn initialValue)"

definition take_op :: "int \<Rightarrow> operator" where
  "take_op numItemsToTake iterable = new_generator (TakeStart numItemsToTake iterable)"

definition dropWhile_op :: "(val \<Rightarrow> bool) \<Rightarrow> operator" where
  "dropWhile_op predFn itr = new_generator (DropWhileStart predFn itr)"

definition map_op :: "(val \<Rightarrow> val) \<Rightarrow> operator" where
  "map_op mapFn iterable = new_generator (MapStart mapFn iterable)"

definition tap :: "(val \<Rightarrow> unit) \<Rightarrow> operator" where
  "tap sideEffectFn itr = new_generator (TapStart sideEffectFn itr)"

definition filter_op :: "(val \<Rightarrow> bool) \<Rightarrow> operator" where
  "filter_op predFn itr = new_generator (FilterStart predFn itr)"

definition remove_op :: "(val \<Rightarrow> bool) \<Rightarrow> operator" where
  "remove_op predFn itr = new_generator (RemoveStart predFn itr)"

definition interpose :: "val \<Rightarrow> operator" where
  "interpose separator itr = new_generator (InterposeStart separator itr)"

definition zip_op :: "val list \<Rightarrow> heap \<Rightarrow> val result" where
  "zip_op iterators = new_generator (ZipStart iterators)"

definition interleave :: "val list \<Rightarrow> heap \<Rightarrow> val result" where
  "interleave iterators = new_generator (InterleaveStart iterators)"

definition flatten :: operator where
  "flatten iterable = new_generator (FlattenStart iterable)"

text \<open>
  \<open>range(numElements, start, step)\<close> (lines 168-176) is \<open>take\<close> over \<open>iterate\<close> with
  \<open>i + step\<close> on numbers; \<open>cycle(itr)\<close> (lines 549-551) is \<open>flatten\<close> over the
  endless repetition of its argument.
\<close>

definition range_op :: "int \<Rightarrow> int \<Rightarrow> int \<Rightarrow> heap \<Rightarrow> val result" where
  "range_op numElements start step h =
     and_then (iterate (\<lambda>i. case i of Num j \<Rightarrow> Num (j + step) | _ \<Rightarrow> i) (Num start) h)
       (take_op numElements)"

definition cycle :: "val \<Rightarrow> heap \<Rightarrow> val result" where
  "cycle itr h = and_then (iterate (\<lambda>i. itr) itr h) flatten"

text \<open>
  \<open>drop(n)\<close> (lines 129-141) is an ordinary function: it normalizes its source, calls
  \<open>next\<close> on it up to \<open>n\<close> times and returns the source iterator itself.
\<close>

fun drop_loop :: "nat \<Rightarrow> nat \<Rightarrow> addr \<Rightarrow> heap \<Rightarrow> unit result" where
  "drop_loop fuel 0 itr h = Return () h"
| "drop_loop fuel (Suc k) itr h =
     (case iter_next fuel itr h of
        Return (IterValue v) h' \<Rightarrow> drop_loop fuel k itr h'
      | Return IterDone h' \<Rightarrow> Return () h'
      | Throw e h' \<Rightarrow> Throw e h'
      | OutOfFuel \<Rightarrow> OutOfFuel)"

definition drop_op :: "nat \<Rightarrow> int \<Rightarrow> operator" where
  "drop_op fuel numItemsToDrop iterable h =
     and_then (iter iterable h)
       (\<lambda>itr h'. and_then (drop_loop fuel (nat numItemsToDrop) itr h') (\<lambda>u. Return (Ref itr)))"

section \<open>Terminal operators and materializers\<close>

text \<open>\<open>Array.from\<close> on an iterator: \<open>next\<close> is called until it reports done.\<close>

fun array_from :: "nat \<Rightarrow> addr \<Rightarrow> heap \<Rightarrow> val list result" where
  "array_from 0 itr h = OutOfFuel"
| "array_from (Suc n) itr h =
     (case iter_next n itr h of
        Return (IterValue v) h' \<Rightarrow> and_then (array_from n itr h') (\<lambda>vs. Return (v # vs))
      | Return IterDone h' \<Rightarrow> Return [] h'
      | Throw e h' \<Rightarrow> Throw e h'
      | OutOfFuel \<Rightarrow> OutOfFuel)"

definition intoArray :: "nat \<Rightarrow> operator" where
  "intoArray fuel iterable h =
     and_then (iter iterable h)
       (\<lambda>itr h'. and_then (array_from fuel itr h') (\<lambda>vs. Return (Arr vs)))"

text \<open>
  \<open>reduce\<close> (lines 281-296). The reducer is any function of the caller; when it throws,
  the \<open>for...of\<close> loop closes the iterator.
\<close>

type_synonym reducer = "val \<Rightarrow> val \<Rightarrow> heap \<Rightarrow> val result"

fun reduce_loop :: "nat \<Rightarrow> reducer \<Rightarrow> val \<Rightarrow> addr \<Rightarrow> heap \<Rightarrow> val result" where
  "reduce_loop 0 reducerFn acc itr h = OutOfFuel"
| "reduce_loop (Suc n) reducerFn acc itr h =
     (case iter_next n itr h of
        Return (IterValue it) h' \<Rightarrow>
          (case reducerFn it acc h' of
             Return acc' h2 \<Rightarrow> reduce_loop n reducerFn acc' itr h2
           | Throw e h2 \<Rightarrow> and_then (gen_return n itr h2) (\<lambda>u. Throw e)
           | OutOfFuel \<Rightarrow> OutOfFuel)
      | Return IterDone h' \<Rightarrow> Return acc h'
      | Throw e h' \<Rightarrow> Throw e h'
      | OutOfFuel \<Rightarrow> OutOfFuel)"

definition reduce :: "nat \<Rightarrow> reducer \<Rightarrow> val \<Rightarrow> operator" where
  "reduce fuel reducerFn initialValue iterable h =
     and_then (iter iterable h) (reduce_loop fuel reducerFn initialValue)"

text \<open>
  \<open>every\<close> (lines 303-308): a full \<open>reduce\<close> with \<open>acc && predFn(it)\<close>. A predicate
  is a function to the booleans.
\<close>

fun truthy :: "val \<Rightarrow> bool" where
  "truthy Undefined = False"
| "truthy Null = False"
| "truthy (Num i) = (i \<noteq> 0)"
| "truthy (Str s) = (s \<noteq> [])"
| "truthy (Bool b) = b"
| "truthy v = True"

definition js_and :: "val \<Rightarrow> val \<Rightarrow> val" where
  "js_and a b = (if truthy a then b else a)"

definition every :: "nat \<Rightarrow> (val \<Rightarrow> bool) \<Rightarrow> operator" where
  "every fuel predFn iterable h =
     and_then (iter iterable h)
       (\<lambda>itr. reduce fuel (\<lambda>it acc. Return (js_and acc (Bool (predFn it)))) (Bool True) (Ref itr))"

text \<open>
  \<open>some\<close> (lines 315-326): the \<open>return true\<close> inside the \<open>for...of\<close> loop leaves the
  loop, which closes the iterator.
\<close>

fun some_loop :: "nat \<Rightarrow> (val \<Rightarrow> bool) \<Rightarrow> addr \<Rightarrow> heap \<Rightarrow> val result" where
  "some_loop 0 predFn itr h = OutOfFuel"
| "some_loop (Suc n) predFn itr h =
     (case iter_next n itr h of
        Return (IterValue it) h' \<Rightarrow>
          (if predFn it then and_then (gen_return n itr h') (\<lambda>u. Return (Bool True))
           else some_loop n predFn itr h')
      | Return IterDone h' \<Rightarrow> Return (Bool False) h'
      | Throw e h' \<Rightarrow> Throw e h'
      | OutOfFuel \<Rightarrow> OutOfFuel)"

definition some :: "nat \<Rightarrow> (val \<Rightarrow> bool) \<Rightarrow> operator" where
  "some fuel predFn iterable h = and_then (iter iterable h) (some_loop fuel predFn)"

text \<open>
  \<open>new Map(itr)\<close>, the whole of \<open>intoMap\<close> (lines 465-468): every item must be an
  object, its properties \<open>0\<close> and \<open>1\<close> are the key and the value, and \<open>set\<close> replaces
  the value of a key that is present and appends a key that is not. A \<open>Map\<close> compares
  keys with \<open>SameValueZero\<close>: \<open>undefined\<close>, \<open>null\<close>, numbers, strings and booleans by
  value, objects by identity. An iterator object is the same key exactly when it is the
  same address; an array, an object or a map that occurs as a key is an object of its own,
  the same as no other key.
\<close>

definition item_at :: "val list \<Rightarrow> nat \<Rightarrow> val" where
  "item_at xs i = (if i < length xs then xs ! i else Undefined)"

definition get_prop :: "(string \<times> val) list \<Rightarrow> string \<Rightarrow> val" where
  "get_prop ps k = (case map_of ps k of Some v \<Rightarrow> v | None \<Rightarrow> Undefined)"

fun entry_of :: "val \<Rightarrow> (val \<times> val) option" where
  "entry_of (Arr xs) = Some (item_at xs 0, item_at xs 1)"
| "entry_of (Obj ps) = Some (get_prop ps ''0'', get_prop ps ''1'')"
| "entry_of (BareObj ps) = Some (get_prop ps ''0'', get_prop ps ''1'')"
| "entry_of (MapV es) = Some (Undefined, Undefined)"
| "entry_of (Ref a) = Some (Undefined, Undefined)"
| "entry_of v = None"

fun same_value_zero :: "val \<Rightarrow> val \<Rightarrow> bool" where
  "same_value_zero (Arr xs) k = False"
| "same_value_zero (Obj ps) k = False"
| "same_value_zero (BareObj ps) k = False"
| "same_value_zero (MapV es) k = False"
| "same_value_zero k' k = (k' = k)"

fun map_set :: "val \<Rightarrow> val \<Rightarrow> (val \<times> val) list \<Rightarrow> (val \<times> val) list" where
  "map_set k v [] = [(k, v)]"
| "map_set k v ((k', v') # m) =
     (if same_value_zero k' k then (k', v) # m else (k', v') # map_set k v m)"

fun map_constructor :: "nat \<Rightarrow> addr \<Rightarrow> (val \<times> val) list \<Rightarrow> heap \<Rightarrow> val result" where
  "map_constructor 0 itr m h = OutOfFuel"
| "map_constructor (Suc n) itr m h =
     (case iter_next n itr h of
        Return (IterValue item) h' \<Rightarrow>
          (case entry_of item of
             Some (k, v) \<Rightarrow> map_constructor n itr (map_set k v m) h'
           | None \<Rightarrow> and_then (gen_return n itr h') (\<lambda>u. Throw TypeError))
      | Return IterDone h' \<Rightarrow> Return (MapV m) h'
      | Throw e h' \<Rightarrow> Throw e h'
      | OutOfFuel \<Rightarrow> OutOfFuel)"

definition intoMap :: "nat \<Rightarrow> operator" where
  "intoMap fuel iterable h = and_then (iter iterable h) (\<lambda>itr. map_constructor fuel itr [])"

text \<open>
  \<open>intoObj\<close> (lines 474-486). The reducer's parameter \<open>[k, v]\<close> takes the item apart
  through the item's own iterator: two pulls, and the iterator is closed when the second
  one did not report done.
\<close>

definition destructure_pair :: "nat \<Rightarrow> val \<Rightarrow> heap \<Rightarrow> (val \<times> val) result" where
  "destructure_pair fuel item h =
     and_then (get_iterator item h) (\<lambda>it h1.
       case iter_next fuel it h1 of
         Return IterDone h2 \<Rightarrow> Return (Undefined, Undefined) h2
       | Return (IterValue k) h2 \<Rightarrow>
           (case iter_next fuel it h2 of
              Return IterDone h3 \<Rightarrow> Return (k, Undefined) h3
            | Return (IterValue v) h3 \<Rightarrow> and_then (gen_return fuel it h3) (\<lambda>u. Return (k, v))
            | Throw e h3 \<Rightarrow> Throw e h3
            | OutOfFuel \<Rightarrow> OutOfFuel)
       | Throw e h2 \<Rightarrow> Throw e h2
       | OutOfFuel \<Rightarrow> OutOfFuel)"

text \<open>
  \<open>obj[k] = v\<close> (line 482). The key is converted to a property key first: a string is
  its own key, every other value is converted by the host's \<open>ToString\<close>, a parameter
  here. On an object that inherits the accessor \<open>__proto__\<close> and has no property of
  this name itself, the assignment to \<open>__proto__\<close> runs the inherited setter: it
  replaces the prototype when the value is an object or \<open>null\<close>, does nothing for any
  other value, and in no case creates a property. Of a replaced prototype the model keeps
  whether the setter is still inherited through it: not through \<open>null\<close>, not through an
  object that does not inherit it, and not through an object that has a property
  \<open>__proto__\<close> of its own, which comes first in the chain. Every other assignment
  replaces the value of an own property that is present and adds one that is not (at the
  end of the list here; the host enumerates integer-like keys first, and no statement below
  depends on the order). The accumulator is the object literal of the initial value with
  the assignments made to it, so \<open>obj\<close> is always an object.
\<close>

definition toPropertyKey :: "(val \<Rightarrow> string) \<Rightarrow> val \<Rightarrow> string" where
  "toPropertyKey toString k = (case k of Str s \<Rightarrow> s | _ \<Rightarrow> toString k)"

fun set_prototype :: "(string \<times> val) list \<Rightarrow> val \<Rightarrow> val" where
  "set_prototype ps Null = BareObj ps"
| "set_prototype ps (BareObj qs) = BareObj ps"
| "set_prototype ps (Obj qs) = (if map_of qs ''__proto__'' = None then Obj ps else BareObj ps)"
| "set_prototype ps proto = Obj ps"

fun obj_assign :: "val \<Rightarrow> string \<Rightarrow> val \<Rightarrow> error + val" where
  "obj_assign (Obj ps) k v =
     (if k = ''__proto__'' \<and> map_of ps k = None then Inr (set_prototype ps v)
      else Inr (Obj (AList.update k v ps)))"
| "obj_assign (BareObj ps) k v = Inr (BareObj (AList.update k v ps))"
| "obj_assign obj k v = Inl TypeError"

definition obj_reducer :: "nat \<Rightarrow> (val \<Rightarrow> string) \<Rightarrow> reducer" where
  "obj_reducer fuel toString item obj h =
     and_then (destructure_pair fuel item h) (\<lambda>(k, v) h'.
       case obj_assign obj (toPropertyKey toString k) v of
         Inr obj' \<Rightarrow> Return obj' h'
       | Inl e \<Rightarrow> Throw e h')"

definition intoObj :: "nat \<Rightarrow> (val \<Rightarrow> string) \<Rightarrow> operator" where
  "intoObj fuel toString iterable h =
     and_then (iter iterable h)
       (\<lambda>itr. pipe (Ref itr) [reduce fuel (obj_reducer fuel toString) (Obj [])])"

section \<open>Notions used to state the properties\<close>

text \<open>
  \<open>k\<close> calls of \<open>next\<close> in a row on one iterator, with their outcomes in order: what a
  consumer sees that keeps pulling.
\<close>

fun pull_times :: "nat \<Rightarrow> nat \<Rightarrow> addr \<Rightarrow> heap \<Rightarrow> iter_result list result" where
  "pull_times fuel 0 itr h = Return [] h"
| "pull_times fuel (Suc k) itr h =
     and_then (iter_next fuel itr h)
       (\<lambda>r h'. and_then (pull_times fuel k itr h') (\<lambda>rs. Return (r # rs)))"

text \<open>
  What a source is, for a consumer that pulls from it: the outcomes of its successive
  calls of \<open>next\<close>. \<open>source_yields consumer F s h rs h'\<close> says that the iterator
  \<open>s\<close>, called from the heap \<open>h\<close> once for each element of \<open>rs\<close>, returns these
  outcomes in this order and leaves the heap \<open>h'\<close>, and that each call returns with any
  fuel from \<open>F\<close> on. A consumer that is a generator has an object of its own in the
  heap, created after the source, which changes between the calls; \<open>consumer\<close> is its
  address, and the source does the same whatever the state \<open>c\<close> of that object
  (\<open>beside\<close> puts it there). For a consumer that is an ordinary function \<open>consumer\<close>
  is \<open>None\<close>. No object is ever removed from the heap.
\<close>

definition beside :: "addr option \<Rightarrow> gen \<times> nat \<Rightarrow> heap \<Rightarrow> heap" where
  "beside consumer c h = (case consumer of None \<Rightarrow> h | Some g \<Rightarrow> h[g := c])"

inductive source_yields ::
  "addr option \<Rightarrow> nat \<Rightarrow> addr \<Rightarrow> heap \<Rightarrow> iter_result list \<Rightarrow> heap \<Rightarrow> bool" where
  no_pull: "source_yields consumer F s h [] h"
| pull: "source_yields consumer F s h (r # rs) h''"
  if "\<forall>fuel c. F \<le> fuel \<longrightarrow>
        iter_next fuel s (beside consumer c h) = Return r (beside consumer c h')"
    and "length h \<le> length h'"
    and "source_yields consumer F s h' rs h''"

text \<open>
  The outcomes that matter to a consumer that stops after \<open>n\<close> items: the source yields
  the \<open>n\<close> items \<open>xs\<close> (whatever it would do afterwards), or it yields fewer, the items
  \<open>xs\<close>, and then reports that it is done.
\<close>

definition first_items :: "nat \<Rightarrow> val list \<Rightarrow> iter_result list \<Rightarrow> bool" where
  "first_items n xs rs =
     (rs = map IterValue xs \<and> length xs = n \<or>
      rs = map IterValue xs @ [IterDone] \<and> length xs < n)"

text \<open>
  Closing the source, which a \<open>for...of\<close> loop does when it is left early:
  \<open>closes F s h h'\<close> says that the \<open>return\<close> method of the iterator \<open>s\<close>,
  called from the heap \<open>h\<close>, returns with any fuel from \<open>F\<close> on and leaves the
  heap \<open>h'\<close>.
\<close>

definition closes :: "nat \<Rightarrow> addr \<Rightarrow> heap \<Rightarrow> heap \<Rightarrow> bool" where
  "closes F s h h' = (\<forall>fuel. F \<le> fuel \<longrightarrow> gen_return fuel s h = Return () h')"

text \<open>
  A chain of the operators that are generator functions, and the state of a generator
  object that was created and never resumed: it holds the arguments of the call, and
  \<open>next\<close> was never called on it.
\<close>

datatype lazy_op =
    Take int
  | DropWhile "val \<Rightarrow> bool"
  | Map "val \<Rightarrow> val"
  | Tap "val \<Rightarrow> unit"
  | Filter "val \<Rightarrow> bool"
  | Remove "val \<Rightarrow> bool"
  | Interpose val
  | Flatten

fun lazy_operator :: "lazy_op \<Rightarrow> operator" where
  "lazy_operator (Take n) = take_op n"
| "lazy_operator (DropWhile p) = dropWhile_op p"
| "lazy_operator (Map f) = map_op f"
| "lazy_operator (Tap f) = tap f"
| "lazy_operator (Filter p) = filter_op p"
| "lazy_operator (Remove p) = remove_op p"
| "lazy_operator (Interpose sep) = interpose sep"
| "lazy_operator Flatten = flatten"

fun never_resumed :: "gen \<times> nat \<Rightarrow> bool" where
  "never_resumed (TakeStart n v, pulls) = (pulls = 0)"
| "never_resumed (DropWhileStart p v, pulls) = (pulls = 0)"
| "never_resumed (MapStart f v, pulls) = (pulls = 0)"
| "never_resumed (TapStart f v, pulls) = (pulls = 0)"
| "never_resumed (FilterStart p v, pulls) = (pulls = 0)"
| "never_resumed (RemoveStart p v, pulls) = (pulls = 0)"
| "never_resumed (InterposeStart sep v, pulls) = (pulls = 0)"
| "never_resumed (FlattenStart v, pulls) = (pulls = 0)"
| "never_resumed (g, pulls) = False"

section \<open>Basic facts about the heap and about sequencing\<close>

lemma length_set_state [simp]: "length (set_state a g h) = length h"
  by (simp add: set_state_def)

lemma length_count_pull [simp]: "length (count_pull a h) = length h"
  by (simp add: count_pull_def)

lemma state_of_set_state:
  "state_of (set_state a g h) b = (if b = a \<and> a < length h then g else state_of h b)"
  by (simp add: set_state_def state_of_def)

lemma pulls_of_set_state [simp]: "pulls_of (set_state a g h) b = pulls_of h b"
  by (simp add: set_state_def pulls_of_def nth_list_update)

lemma state_of_count_pull [simp]: "state_of (count_pull a h) b = state_of h b"
  by (simp add: count_pull_def state_of_def nth_list_update)

lemma pulls_of_count_pull:
  "pulls_of (count_pull a h) b =
     (if b = a \<and> a < length h then Suc (pulls_of h b) else pulls_of h b)"
  by (simp add: count_pull_def pulls_of_def)

lemma state_of_alloc: "state_of (h @ [(g, 0)]) b = (if b = length h then g else state_of h b)"
  by (simp add: state_of_def nth_append)

lemma pulls_of_alloc [simp]: "pulls_of (h @ [(g, 0)]) b = pulls_of h b"
  by (simp add: pulls_of_def nth_append)

lemma and_then_Return [simp]: "and_then (Return v h) k = k v h"
  by (simp add: and_then_def)

lemma and_then_Throw [simp]: "and_then (Throw e h) k = Throw e h"
  by (simp add: and_then_def)

lemma and_then_OutOfFuel [simp]: "and_then OutOfFuel k = OutOfFuel"
  by (simp add: and_then_def)

lemma and_then_assoc: "and_then (and_then r f) g = and_then r (\<lambda>v h. and_then (f v h) g)"
  by (cases r) simp_all

lemma and_then_unit: "and_then r Return = r"
  by (cases r) simp_all

text \<open>The equations that run the model on a concrete input.\<close>

lemmas run_simps = pipe_def iter_def and_then_def alloc_def new_generator_def
  take_op_def dropWhile_op_def map_op_def tap_def filter_op_def remove_op_def interpose_def
  zip_op_def interleave_def flatten_def iterate_def range_op_def cycle_def drop_op_def
  intoArray_def reduce_def every_def some_def intoMap_def intoObj_def
  state_of_def count_pull_def set_state_def pulls_of_def
  take_loop_def map_loop_def tap_loop_def interpose_loop_def zip_loop_def
  flatten_delegate_def isArrayOrIter_def
  yield_def finish_def fail_def is_done_def value_of_def js_and_def
  destructure_pair_def obj_reducer_def toPropertyKey_def item_at_def get_prop_def
  eval_nat_numeral

section \<open>The composition engine applies the operators in the order listed\<close>

lemma nested_application_Nil: "nested_application [] = Return"
  by (intro ext) simp

lemma nested_application_snoc:
  "nested_application (ops @ [op1]) v h = and_then (nested_application ops v h) op1"
proof (induction ops arbitrary: v h)
  case Nil
  show ?case by (simp add: and_then_unit nested_application_Nil)
next
  case (Cons a ops)
  have "nested_application (ops @ [op1]) = (\<lambda>v h. and_then (nested_application ops v h) op1)"
    by (intro ext) (rule Cons.IH)
  then show ?case by (simp add: and_then_assoc)
qed

lemma pipe_f_rev:
  "ops \<noteq> [] \<Longrightarrow> pipe_f itr (rev ops) h = nested_application ops (Ref itr) h"
proof (induction ops rule: rev_induct)
  case Nil
  then show ?case by simp
next
  case (snoc op1 ops)
  show ?case
  proof (cases "ops = []")
    case True
    then show ?thesis by (simp add: and_then_unit nested_application_Nil)
  next
    case False
    then obtain y ys where r: "rev ops = y # ys" by (cases "rev ops") auto
    have "pipe_f itr (rev (ops @ [op1])) h = and_then (pipe_f itr (rev ops) h) op1"
      by (simp add: r)
    with snoc.IH [OF False] show ?thesis by (simp add: nested_application_snoc)
  qed
qed

text \<open>
  C1. For every source and every non-empty list of operators, \<open>pipe\<close> returns what the
  nested application \<open>opN(...(op1(iter(source))))\<close> returns: the same value or
  exception and the same heap, whatever the operators do. The reversal of the list and the
  recursion of \<open>f\<close> cancel out.
\<close>

theorem pipe_applies_left_to_right:
  "operators \<noteq> [] \<Longrightarrow>
   pipe iterable operators h =
     and_then (iter iterable h) (\<lambda>itr. nested_application operators (Ref itr))"
proof -
  assume ne: "operators \<noteq> []"
  have "(\<lambda>itr. pipe_f itr (rev operators)) = (\<lambda>itr. nested_application operators (Ref itr))"
    by (intro ext) (simp add: pipe_f_rev [OF ne])
  then show ?thesis by (simp add: pipe_def)
qed

theorem pipe_applies_left_to_right_witness:
  "[take_op 2, intoArray 9] \<noteq> [] \<and>
   pipe (Arr [Num 1, Num 2, Num 3]) [take_op 2, intoArray 9] [] =
     and_then (iter (Arr [Num 1, Num 2, Num 3]) [])
       (\<lambda>itr. nested_application [take_op 2, intoArray 9] (Ref itr)) \<and>
   pipe (Arr [Num 1, Num 2, Num 3]) [take_op 2, intoArray 9] [] =
     Return (Arr [Num 1, Num 2]) [(ArrayIterator [Num 3], 2), (Completed, 3)]"
proof -
  have ne: "[take_op 2, intoArray 9] \<noteq> []" by simp
  have run: "pipe (Arr [Num 1, Num 2, Num 3]) [take_op 2, intoArray 9] [] =
      Return (Arr [Num 1, Num 2]) [(ArrayIterator [Num 3], 2), (Completed, 3)]"
    by (simp add: run_simps)
  from pipe_applies_left_to_right [OF ne, of "Arr [Num 1, Num 2, Num 3]" "[]"] run ne
  show ?thesis by blast
qed

text \<open>
  C2. With no operator at all \<open>pipe\<close> does not return the normalized source: the inner
  function finds \<open>first\<close> undefined and \<open>rest\<close> empty and calls \<open>first(itr)\<close>, a
  \<open>TypeError\<close>, for every source that \<open>iter\<close> accepts; for an array of two numbers the
  exception leaves the array's fresh iterator behind, never pulled.
\<close>

theorem pipe_without_operators_throws:
  "pipe iterable [] h = and_then (iter iterable h) (\<lambda>itr. Throw TypeError) \<and>
   pipe (Arr [Num 1, Num 2]) [] [] = Throw TypeError [(ArrayIterator [Num 1, Num 2], 0)]"
proof
  have "(\<lambda>itr. pipe_f itr (rev [])) = (\<lambda>itr. Throw TypeError)"
    by (intro ext) simp
  then show "pipe iterable [] h = and_then (iter iterable h) (\<lambda>itr. Throw TypeError)"
    by (simp add: pipe_def)
  show "pipe (Arr [Num 1, Num 2]) [] [] = Throw TypeError [(ArrayIterator [Num 1, Num 2], 0)]"
    by (simp add: run_simps)
qed

section \<open>The source normalizer\<close>

lemma iter_returns_unless_null:
  "v \<noteq> Null \<Longrightarrow> \<exists>a h'. iter v h = Return a h'"
  by (cases v) (simp_all add: iter_def alloc_def)

text \<open>
  C3. \<open>iter\<close> is not total: on \<open>null\<close> the read of \<open>iterable["next"]\<close> throws a
  \<open>TypeError\<close>, in every heap, and no iterator is created.
\<close>

theorem iter_null_throws: "iter Null h = Throw TypeError h"
  by (simp add: iter_def)

section \<open>Sources\<close>

text \<open>
  Facts about \<open>source_yields\<close>: how it is taken apart and put together, and that the
  host's array iterators, which the normalizer creates for arrays, strings and maps, yield
  their items in order and then report that they are done, whoever consumes them.
\<close>

lemma state_of_allocated: "state_of h a \<noteq> Completed \<Longrightarrow> a < length h"
  by (simp add: state_of_def split: if_splits)

lemma beside_None [simp]: "beside None c h = h"
  by (simp add: beside_def)

lemma beside_Some [simp]: "beside (Some g) c h = h[g := c]"
  by (simp add: beside_def)

lemma source_yields_Nil: "source_yields consumer F s h [] h' \<Longrightarrow> h' = h"
  by (erule source_yields.cases) simp_all

lemma source_yields_Cons:
  assumes "source_yields consumer F s h (r # rs) h''"
  shows "\<exists>h'. (\<forall>fuel c. F \<le> fuel \<longrightarrow>
               iter_next fuel s (beside consumer c h) = Return r (beside consumer c h')) \<and>
            length h \<le> length h' \<and> source_yields consumer F s h' rs h''"
  using assms by (rule source_yields.cases) auto

lemma source_yields_length: "source_yields consumer F s h rs h' \<Longrightarrow> length h \<le> length h'"
  by (induction rule: source_yields.induct) simp_all

lemma source_yields_append:
  "source_yields consumer F s h rs h' \<Longrightarrow> source_yields consumer F s h' rs' h'' \<Longrightarrow>
   source_yields consumer F s h (rs @ rs') h''"
  by (induction rule: source_yields.induct) (auto intro: source_yields.intros)

lemma source_yields_split:
  "source_yields consumer F s h (rs @ rs') h'' \<Longrightarrow>
   \<exists>h'. source_yields consumer F s h rs h' \<and> source_yields consumer F s h' rs' h''"
proof (induction rs arbitrary: h)
  case Nil
  then show ?case by (auto intro: source_yields.intros)
next
  case (Cons r rs)
  from Cons.prems have "source_yields consumer F s h (r # (rs @ rs')) h''" by simp
  then obtain h1 where
    step: "\<forall>fuel c. F \<le> fuel \<longrightarrow>
        iter_next fuel s (beside consumer c h) = Return r (beside consumer c h1)"
    and len: "length h \<le> length h1"
    and rest: "source_yields consumer F s h1 (rs @ rs') h''"
    using source_yields_Cons by blast
  from Cons.IH [OF rest] obtain h' where
    "source_yields consumer F s h1 rs h'" "source_yields consumer F s h' rs' h''"
    by blast
  with step len show ?case by (blast intro: source_yields.pull)
qed

lemma next_array_iterator:
  assumes "state_of h s = ArrayIterator xs" and "consumer \<noteq> Some s"
  shows "iter_next (Suc n) s (beside consumer c h) =
     Return (case xs of [] \<Rightarrow> IterDone | x # rest \<Rightarrow> IterValue x)
       (beside consumer c (h[s := (ArrayIterator (tl xs), Suc (pulls_of h s))]))"
proof -
  from assms have sl: "s < length h" by (simp add: state_of_allocated)
  show ?thesis
  proof (cases consumer)
    case None
    with assms sl show ?thesis
      by (cases xs) (simp_all add: set_state_def count_pull_def pulls_of_def state_of_def)
  next
    case (Some g)
    with assms have "g \<noteq> s" by simp
    with assms sl Some show ?thesis
      by (cases xs)
        (simp_all add: set_state_def count_pull_def pulls_of_def state_of_def list_update_swap)
  qed
qed

lemma array_iterator_yields:
  assumes "state_of h s = ArrayIterator (xs @ ys)" and "consumer \<noteq> Some s"
  shows "source_yields consumer (Suc 0) s h (map IterValue xs)
           (if xs = [] then h else h[s := (ArrayIterator ys, pulls_of h s + length xs)])"
  using assms(1)
proof (induction xs arbitrary: h)
  case Nil
  show ?case by (simp add: source_yields.no_pull)
next
  case (Cons x xs)
  then have sl: "s < length h" by (simp add: state_of_allocated)
  define h1 where "h1 = h[s := (ArrayIterator (xs @ ys), Suc (pulls_of h s))]"
  have st: "state_of h1 s = ArrayIterator (xs @ ys)" and p: "pulls_of h1 s = Suc (pulls_of h s)"
    using sl by (simp_all add: h1_def state_of_def pulls_of_def)
  have step: "\<forall>fuel c. Suc 0 \<le> fuel \<longrightarrow>
      iter_next fuel s (beside consumer c h) = Return (IterValue x) (beside consumer c h1)"
  proof (intro allI impI)
    fix fuel :: nat and c
    assume "Suc 0 \<le> fuel"
    then obtain n where "fuel = Suc n" by (cases fuel) simp_all
    with next_array_iterator [OF Cons.prems assms(2), of n c]
    show "iter_next fuel s (beside consumer c h) = Return (IterValue x) (beside consumer c h1)"
      by (simp add: h1_def)
  qed
  have fin: "(if xs = [] then h1 else h1[s := (ArrayIterator ys, pulls_of h1 s + length xs)]) =
      h[s := (ArrayIterator ys, pulls_of h s + length (x # xs))]"
    using Cons.prems sl by (simp add: h1_def pulls_of_def)
  from Cons.IH [OF st] have "source_yields consumer (Suc 0) s h1 (map IterValue xs)
      (h[s := (ArrayIterator ys, pulls_of h s + length (x # xs))])"
    by (simp only: fin)
  with step have "source_yields consumer (Suc 0) s h (IterValue x # map IterValue xs)
      (h[s := (ArrayIterator ys, pulls_of h s + length (x # xs))])"
    by (intro source_yields.pull [where h' = h1]) (simp_all add: h1_def)
  then show ?case by simp
qed

lemma array_iterator_yields_all:
  assumes "state_of h s = ArrayIterator xs" and "consumer \<noteq> Some s"
  shows "source_yields consumer (Suc 0) s h (map IterValue xs @ [IterDone])
           (h[s := (ArrayIterator [], Suc (pulls_of h s + length xs))])"
proof -
  from assms have sl: "s < length h" by (simp add: state_of_allocated)
  define h1 where "h1 = (if xs = [] then h else h[s := (ArrayIterator [], pulls_of h s + length xs)])"
  from assms have a: "source_yields consumer (Suc 0) s h (map IterValue xs) h1"
    using array_iterator_yields [of h s xs "[]" consumer] by (simp add: h1_def)
  have st: "state_of h1 s = ArrayIterator []" and p: "pulls_of h1 s = pulls_of h s + length xs"
    and l: "length h1 = length h"
    using assms sl by (simp_all add: h1_def state_of_def pulls_of_def)
  define h2 where "h2 = h1[s := (ArrayIterator [], Suc (pulls_of h1 s))]"
  have "\<forall>fuel c. Suc 0 \<le> fuel \<longrightarrow>
      iter_next fuel s (beside consumer c h1) = Return IterDone (beside consumer c h2)"
  proof (intro allI impI)
    fix fuel :: nat and c
    assume "Suc 0 \<le> fuel"
    then obtain n where "fuel = Suc n" by (cases fuel) simp_all
    with next_array_iterator [OF st assms(2), of n c]
    show "iter_next fuel s (beside consumer c h1) = Return IterDone (beside consumer c h2)"
      by (simp add: h2_def)
  qed
  then have "source_yields consumer (Suc 0) s h1 [IterDone] h2"
    by (intro source_yields.pull [where h' = h2] source_yields.no_pull) (simp_all add: h2_def)
  with a have "source_yields consumer (Suc 0) s h (map IterValue xs @ [IterDone]) h2"
    by (rule source_yields_append)
  moreover have "h2 = h[s := (ArrayIterator [], Suc (pulls_of h s + length xs))]"
    by (simp add: h2_def p) (simp add: h1_def)
  ultimately show ?thesis by simp
qed

lemma source_yields_pull_from:
  assumes "\<And>k c. iter_next (F + k) s (beside consumer c h) = Return r (beside consumer c h')"
    and "length h \<le> length h'"
    and "source_yields consumer F s h' rs h''"
  shows "source_yields consumer F s h (r # rs) h''"
proof (rule source_yields.pull [OF _ assms(2,3)], intro allI impI)
  fix fuel :: nat and c
  assume "F \<le> fuel"
  then obtain k where "fuel = F + k" by (auto simp: le_iff_add)
  with assms(1) show "iter_next fuel s (beside consumer c h) = Return r (beside consumer c h')"
    by simp
qed

text \<open>
  The generator of \<open>iterate(f, x)\<close> yields \<open>x\<close>, \<open>f x\<close>, \<open>f (f x)\<close> and so on,
  for ever.
\<close>

lemma funpow_values_Suc:
  "map (\<lambda>i. IterValue ((f ^^ i) x)) [0..<Suc m] =
     IterValue x # map (\<lambda>i. IterValue ((f ^^ i) (f x))) [0..<m]"
proof -
  have "[0..<Suc m] = 0 # [Suc 0..<Suc m]"
    by (rule upt_conv_Cons) simp
  also have "[Suc 0..<Suc m] = map Suc [0..<m]"
    by (simp only: map_Suc_upt)
  finally have "map (\<lambda>i. IterValue ((f ^^ i) x)) [0..<Suc m] =
      map (\<lambda>i. IterValue ((f ^^ i) x)) (0 # map Suc [0..<m])"
    by (simp only:)
  then show ?thesis by (simp add: funpow_swap1 comp_def)
qed

lemma next_iterate_generator:
  assumes "state_of h s = IterateStart f x \<or> (\<exists>y. state_of h s = IterateYield f y \<and> f y = x)"
    and "consumer \<noteq> Some s"
  shows "iter_next (Suc n) s (beside consumer c h) =
     Return (IterValue x) (beside consumer c (h[s := (IterateYield f x, Suc (pulls_of h s))]))"
proof -
  from assms have sl: "s < length h" by (auto simp: state_of_allocated)
  show ?thesis
  proof (cases consumer)
    case None
    with assms sl show ?thesis
      by (auto simp: yield_def set_state_def count_pull_def pulls_of_def state_of_def)
  next
    case (Some g)
    with assms have "g \<noteq> s" by simp
    with assms sl Some show ?thesis
      by (auto simp: yield_def set_state_def count_pull_def pulls_of_def state_of_def
          list_update_swap)
  qed
qed

lemma iterate_generator_yields:
  assumes "state_of h s = IterateStart f x \<or> (\<exists>y. state_of h s = IterateYield f y \<and> f y = x)"
    and "consumer \<noteq> Some s"
  shows "source_yields consumer (Suc 0) s h (map (\<lambda>i. IterValue ((f ^^ i) x)) [0..<m])
           (if m = 0 then h
            else h[s := (IterateYield f ((f ^^ (m - 1)) x), pulls_of h s + m)])"
  using assms(1)
proof (induction m arbitrary: h x)
  case 0
  show ?case by (simp add: source_yields.no_pull)
next
  case (Suc m)
  then have sl: "s < length h" by (auto simp: state_of_allocated)
  define h1 where "h1 = h[s := (IterateYield f x, Suc (pulls_of h s))]"
  have st: "state_of h1 s = IterateStart f (f x) \<or>
      (\<exists>y. state_of h1 s = IterateYield f y \<and> f y = f x)"
    and p: "pulls_of h1 s = Suc (pulls_of h s)"
    using sl by (simp_all add: h1_def state_of_def pulls_of_def)
  have step: "\<And>k c. iter_next (Suc 0 + k) s (beside consumer c h) =
      Return (IterValue x) (beside consumer c h1)"
    using next_iterate_generator [OF Suc.prems assms(2)] by (simp add: h1_def)
  have fin: "(if m = 0 then h1
      else h1[s := (IterateYield f ((f ^^ (m - 1)) (f x)), pulls_of h1 s + m)]) =
      h[s := (IterateYield f ((f ^^ m) x), pulls_of h s + Suc m)]"
  proof (cases m)
    case 0
    then show ?thesis by (simp add: h1_def)
  next
    case (Suc k)
    with p show ?thesis by (simp add: funpow_swap1) (simp add: h1_def)
  qed
  from Suc.IH [OF st] have "source_yields consumer (Suc 0) s h1
      (map (\<lambda>i. IterValue ((f ^^ i) (f x))) [0..<m])
      (h[s := (IterateYield f ((f ^^ m) x), pulls_of h s + Suc m)])"
    by (simp only: fin)
  with step have "source_yields consumer (Suc 0) s h
      (IterValue x # map (\<lambda>i. IterValue ((f ^^ i) (f x))) [0..<m])
      (h[s := (IterateYield f ((f ^^ m) x), pulls_of h s + Suc m)])"
    by (intro source_yields_pull_from [where h' = h1]) (simp_all add: h1_def)
  then show ?case by (simp only: funpow_values_Suc) simp
qed

lemma iter_only_allocates:
  assumes "iter iterable h = Return s h0"
  shows "h0 = h \<or> (\<exists>xs. h0 = h @ [(ArrayIterator xs, 0)])"
  using assms by (cases iterable) (auto simp: iter_def alloc_def split: if_splits)

text \<open>
  The generator operators on the inputs of the library's tests: \<open>dropWhile\<close>,
  \<open>filter\<close>, \<open>remove\<close> and \<open>interpose\<close> over \<open>range\<close>.
\<close>

lemma generator_operators_on_the_test_inputs:
  "(\<exists>h'. and_then (range_op 7 0 1 [])
      (\<lambda>source. pipe source
         [dropWhile_op (\<lambda>v. case v of Num i \<Rightarrow> i < 4 | _ \<Rightarrow> False), intoArray 12]) =
      Return (Arr [Num 4, Num 5, Num 6]) h') \<and>
   (\<exists>h'. and_then (range_op 4 1 1 [])
      (\<lambda>source. pipe source
         [filter_op (\<lambda>v. case v of Num i \<Rightarrow> even i | _ \<Rightarrow> False), intoArray 12]) =
      Return (Arr [Num 2, Num 4]) h') \<and>
   (\<exists>h'. and_then (range_op 4 1 1 [])
      (\<lambda>source. pipe source
         [remove_op (\<lambda>v. case v of Num i \<Rightarrow> even i | _ \<Rightarrow> False), intoArray 12]) =
      Return (Arr [Num 1, Num 3]) h') \<and>
   (\<exists>h'. and_then (range_op 3 0 1 [])
      (\<lambda>source. pipe source [interpose (Str ''*''), intoArray 12]) =
      Return (Arr [Num 0, Str ''*'', Num 1, Str ''*'', Num 2]) h')"
  by (simp add: run_simps)

section \<open>\<open>take\<close> yields a prefix and stops pulling\<close>

lemma take_loop_drains_source:
  assumes "source_yields (Some g) F s h rs hF"
    and "first_items (nat (k - j)) xs rs"
    and "g < length h"
    and "F + length xs + 1 \<le> fuel"
  shows "and_then (take_loop g k s j (iter_next fuel) (h[g := (st, p)]))
           (\<lambda>r h2. case r of IterDone \<Rightarrow> Return [] h2
              | IterValue v \<Rightarrow> and_then (array_from (Suc fuel) g h2) (\<lambda>vs. Return (v # vs)))
         = Return xs (hF[g := (Completed, p + length xs)])"
  using assms
proof (induction xs arbitrary: h j fuel rs st p)
  case Nil
  from Nil.prems(2) consider "rs = []" "\<not> j < k" | "rs = [IterDone]" "j < k"
    by (auto simp: first_items_def)
  then show ?case
  proof cases
    case 1
    with Nil.prems(1) have "hF = h" by (simp add: source_yields_Nil)
    with 1 Nil.prems(3) show ?thesis
      by (simp add: take_loop_def finish_def set_state_def pulls_of_def)
  next
    case 2
    with Nil.prems(1) source_yields_Cons [of "Some g" F s h IterDone "[]" hF]
    obtain h' where
      step: "\<forall>fuel c. F \<le> fuel \<longrightarrow> iter_next fuel s (h[g := c]) = Return IterDone (h'[g := c])"
      and len: "length h \<le> length h'" and "source_yields (Some g) F s h' [] hF"
      by auto
    then have hF: "hF = h'" by (simp add: source_yields_Nil)
    from Nil.prems(4) have "F \<le> fuel" by simp
    with step have "iter_next fuel s (h[g := (st, p)]) = Return IterDone (h'[g := (st, p)])"
      by simp
    with 2 Nil.prems(3) len show ?thesis
      by (simp add: take_loop_def finish_def set_state_def pulls_of_def hF)
  qed
next
  case (Cons x xs)
  from Cons.prems(2) obtain rs' where rs: "rs = IterValue x # rs'" and lt: "j < k"
    and fi: "first_items (nat (k - (j + 1))) xs rs'"
    by (auto simp: first_items_def)
  from Cons.prems(1) source_yields_Cons [of "Some g" F s h "IterValue x" rs' hF]
  obtain h' where
    step: "\<forall>fuel c. F \<le> fuel \<longrightarrow> iter_next fuel s (h[g := c]) = Return (IterValue x) (h'[g := c])"
    and len: "length h \<le> length h'" and rest: "source_yields (Some g) F s h' rs' hF"
    by (auto simp: rs)
  from Cons.prems(4) obtain f where fuel: "fuel = Suc f" and f: "F + length xs + 1 \<le> f"
    by (cases fuel) simp_all
  from Cons.prems(3) len have gl: "g < length h'" by simp
  have "F \<le> fuel" using Cons.prems(4) by simp
  with step have pull: "iter_next fuel s (h[g := (st, p)]) = Return (IterValue x) (h'[g := (st, p)])"
    by simp
  have first: "take_loop g k s j (iter_next fuel) (h[g := (st, p)]) =
      Return (IterValue x) (h'[g := (TakeYield k s j, p)])"
    using lt pull gl by (simp add: take_loop_def yield_def set_state_def pulls_of_def)
  have nxt: "array_from (Suc fuel) g (h'[g := (TakeYield k s j, p)]) =
      and_then (take_loop g k s (j + 1) (iter_next f) (h'[g := (TakeYield k s j, Suc p)]))
        (\<lambda>r h2. case r of IterDone \<Rightarrow> Return [] h2
            | IterValue v \<Rightarrow> and_then (array_from (Suc f) g h2) (\<lambda>vs. Return (v # vs)))"
    using gl
    by (simp add: fuel and_then_def state_of_def count_pull_def pulls_of_def
        split: result.splits iter_result.splits)
  from Cons.IH [OF rest fi gl f, of "TakeYield k s j" "Suc p"]
  have "and_then (take_loop g k s (j + 1) (iter_next f) (h'[g := (TakeYield k s j, Suc p)]))
        (\<lambda>r h2. case r of IterDone \<Rightarrow> Return [] h2
            | IterValue v \<Rightarrow> and_then (array_from (Suc f) g h2) (\<lambda>vs. Return (v # vs)))
      = Return xs (hF[g := (Completed, Suc p + length xs)])" .
  with first nxt show ?case by simp
qed

lemma take_op_intoArray:
  assumes "iter source (h @ [(TakeStart n source, Suc 0)]) = Return s h0"
  shows "and_then (take_op n source h) (intoArray (Suc (Suc fuel))) =
     and_then (take_loop (length h) n s 0 (iter_next fuel) h0)
       (\<lambda>r h1. and_then
          (case r of IterDone \<Rightarrow> Return [] h1
           | IterValue v \<Rightarrow> and_then (array_from (Suc fuel) (length h) h1) (\<lambda>vs. Return (v # vs)))
          (\<lambda>vs. Return (Arr vs)))"
  using assms
  by (simp add: take_op_def new_generator_def alloc_def intoArray_def iter_def [of "Ref _"]
      state_of_def count_pull_def pulls_of_def and_then_def
      split: result.splits iter_result.splits)

lemma first_items_of_finite_source:
  assumes "first_items n xs (take n (map IterValue ys @ [IterDone]))"
  shows "xs = take n ys"
proof (cases "n \<le> length ys")
  case True
  then have t: "take n (map IterValue ys @ [IterDone]) = map IterValue (take n ys)"
    by (simp add: take_map)
  have "IterDone \<notin> set (map IterValue (take n ys))" by auto
  then have "map IterValue xs @ [IterDone] \<noteq> map IterValue (take n ys)"
    by (metis in_set_conv_decomp)
  with assms t have "map IterValue xs = map IterValue (take n ys)"
    by (auto simp: first_items_def)
  then show ?thesis by (simp add: inj_map_eq_map inj_def)
next
  case False
  then have t: "take n (map IterValue ys @ [IterDone]) = map IterValue ys @ [IterDone]"
    by simp
  have "IterDone \<notin> set (map IterValue xs)" by auto
  then have "map IterValue xs \<noteq> map IterValue ys @ [IterDone]"
    by (metis in_set_conv_decomp)
  with assms t have "map IterValue xs = map IterValue ys"
    by (auto simp: first_items_def)
  then have "xs = ys" by (simp add: inj_map_eq_map inj_def)
  with False show ?thesis by simp
qed

text \<open>
  C4. \<open>take(n)\<close> applied to any source and drained into an array. The source is any
  value that \<open>iter\<close> accepts: a plain array, a string, a map, or the iterator of another
  operator. \<open>iter(o)\<close> runs when the new generator is first resumed, so the first
  hypothesis normalizes the source in the heap that already holds the generator, pulled
  once. The second and third say what the source is: its first outcomes \<open>rs\<close> are
  \<open>n\<close> items \<open>xs\<close>, or fewer items \<open>xs\<close> and then the report that it is done; what
  an infinite source would do after its first \<open>n\<close> items plays no role. The fourth is
  the fuel that lets the calls return. Then the array holds exactly the items \<open>xs\<close> in
  the order the source yielded them, and the heap is \<open>hF\<close>, the heap that the
  \<open>length rs\<close> calls of \<open>next\<close> on the source leave, with the generator of \<open>take\<close>
  completed after \<open>length xs + 1\<close> calls: \<open>take\<close> called \<open>next\<close> on the source
  \<open>length rs\<close> times, at most \<open>n\<close> times, and nothing else happened. When \<open>rs\<close> are
  the first \<open>n\<close> outcomes of a finite source with the items \<open>ys\<close>, then \<open>xs\<close> are the
  first \<open>n\<close> of \<open>ys\<close>, \<open>min n (length ys)\<close> items. A negative \<open>n\<close> counts as zero.
\<close>

theorem take_yields_prefix_within_n_pulls:
  assumes "iter source (h @ [(TakeStart n source, 1)]) = Return s h0"
    and "source_yields (Some (length h)) F s h0 rs hF"
    and "first_items (nat n) xs rs"
    and "F + length xs + 3 \<le> fuel"
  shows "and_then (take_op n source h) (intoArray fuel) =
           Return (Arr xs) (hF[length h := (Completed, Suc (length xs))]) \<and>
         length xs \<le> nat n \<and> length rs \<le> nat n \<and>
         (rs = take (nat n) (map IterValue ys @ [IterDone]) \<longrightarrow>
            xs = take (nat n) ys \<and> length xs = min (nat n) (length ys))"
proof -
  from assms(4) obtain fl where fuel: "fuel = Suc (Suc fl)" and fl: "F + length xs + 1 \<le> fl"
    by (cases fuel; cases "fuel - 1") auto
  from assms(1) have it: "iter source (h @ [(TakeStart n source, Suc 0)]) = Return s h0" by simp
  from iter_only_allocates [OF it]
  have g: "length h < length h0" and cell: "h0[length h := (TakeStart n source, Suc 0)] = h0"
    by (auto simp: list_update_append)
  from assms(3) have fi: "first_items (nat (n - 0)) xs rs" by simp
  from take_loop_drains_source [OF assms(2) fi g fl, of "TakeStart n source" "Suc 0"]
  have "and_then (take_loop (length h) n s 0 (iter_next fl) h0)
           (\<lambda>r h2. case r of IterDone \<Rightarrow> Return [] h2
              | IterValue v \<Rightarrow> and_then (array_from (Suc fl) (length h) h2) (\<lambda>vs. Return (v # vs)))
         = Return xs (hF[length h := (Completed, Suc (length xs))])"
    by (simp add: cell)
  then have run: "and_then (take_op n source h) (intoArray fuel) =
           Return (Arr xs) (hF[length h := (Completed, Suc (length xs))])"
    unfolding fuel take_op_intoArray [OF it]
    by (cases "take_loop (length h) n s 0 (iter_next fl) h0") (auto split: iter_result.splits)
  from assms(3) have len: "length xs \<le> nat n" "length rs \<le> nat n"
    by (auto simp: first_items_def)
  have "xs = take (nat n) ys \<and> length xs = min (nat n) (length ys)"
    if "rs = take (nat n) (map IterValue ys @ [IterDone])"
  proof -
    from assms(3) that have "xs = take (nat n) ys"
      by (simp add: first_items_of_finite_source)
    then show ?thesis by (simp add: min.commute)
  qed
  with run len show ?thesis by blast
qed

text \<open>
  The theorem at three sources: the array \<open>[7, 8]\<close> in a \<open>pipe\<close>, shorter than
  \<open>n = 3\<close>; the infinite \<open>iterate(x => x + 1, 0)\<close>, which is left after exactly three
  calls of \<open>next\<close>; and the infinite \<open>cycle([1, 2])\<close>, a \<open>flatten\<close> generator over an
  \<open>iterate\<close> generator that creates objects of its own while it is pulled.
\<close>

theorem take_yields_prefix_within_n_pulls_witness:
  "pipe (Arr [Num 7, Num 8]) [take_op 3, intoArray 9] [] =
     Return (Arr [Num 7, Num 8]) [(ArrayIterator [], 3), (Completed, 3)] \<and>
   and_then (iterate (\<lambda>v. case v of Num i \<Rightarrow> Num (i + 1) | _ \<Rightarrow> v) (Num 0) [])
     (\<lambda>source h. and_then (take_op 3 source h) (intoArray 9)) =
     Return (Arr [Num 0, Num 1, Num 2])
       [(IterateYield (\<lambda>v. case v of Num i \<Rightarrow> Num (i + 1) | _ \<Rightarrow> v) (Num 2), 3), (Completed, 4)] \<and>
   and_then (cycle (Arr [Num 1, Num 2]) [])
     (\<lambda>source h. and_then (take_op 3 source h) (intoArray 12)) =
     Return (Arr [Num 1, Num 2, Num 1])
       [(IterateYield (\<lambda>i. Arr [Num 1, Num 2]) (Arr [Num 1, Num 2]), 2), (FlattenDeleg 0 6, 3),
        (Completed, 4), (ArrayIterator [], 3), (Completed, 3), (ArrayIterator [Num 2], 1),
        (FlattenFor 5, 1)]"
proof (intro conjI)
  define h where "h = [(ArrayIterator [Num 7, Num 8], 0::nat)]"
  define h0 where "h0 = h @ [(TakeStart 3 (Ref 0), 1)]"
  have it: "iter (Ref 0) (h @ [(TakeStart 3 (Ref 0), 1)]) = Return 0 h0"
    by (simp add: iter_def h0_def)
  have "state_of h0 0 = ArrayIterator [Num 7, Num 8]" and "Some (length h) \<noteq> Some 0"
    by (simp_all add: h0_def h_def state_of_def)
  from array_iterator_yields_all [OF this]
  have src: "source_yields (Some (length h)) (Suc 0) 0 h0
               (map IterValue [Num 7, Num 8] @ [IterDone])
               (h0[0 := (ArrayIterator [], Suc (pulls_of h0 0 + length [Num 7, Num 8]))])" .
  have fi: "first_items (nat 3) [Num 7, Num 8] (map IterValue [Num 7, Num 8] @ [IterDone])"
    by (simp add: first_items_def)
  have fuel: "Suc 0 + length [Num 7, Num 8] + 3 \<le> (9::nat)" by simp
  from take_yields_prefix_within_n_pulls [OF it src fi fuel, THEN conjunct1]
  have "and_then (take_op 3 (Ref 0) h) (intoArray 9) =
      Return (Arr [Num 7, Num 8]) [(ArrayIterator [], 3), (Completed, 3)]"
    by (simp add: h0_def h_def pulls_of_def eval_nat_numeral)
  then show "pipe (Arr [Num 7, Num 8]) [take_op 3, intoArray 9] [] =
     Return (Arr [Num 7, Num 8]) [(ArrayIterator [], 3), (Completed, 3)]"
    by (simp add: pipe_def iter_def alloc_def h_def)
next
  define f where "f = (\<lambda>v. case v of Num i \<Rightarrow> Num (i + 1) | _ \<Rightarrow> v)"
  define h where "h = [(IterateStart f (Num 0), 0::nat)]"
  have it: "iter (Ref 0) (h @ [(TakeStart 3 (Ref 0), 1)]) = Return 0 (h @ [(TakeStart 3 (Ref 0), 1)])"
    by (simp add: iter_def)
  have "state_of (h @ [(TakeStart 3 (Ref 0), 1)]) 0 = IterateStart f (Num 0) \<or>
      (\<exists>y. state_of (h @ [(TakeStart 3 (Ref 0), 1)]) 0 = IterateYield f y \<and> f y = Num 0)"
    and "Some (length h) \<noteq> Some 0"
    by (simp_all add: h_def state_of_def)
  from iterate_generator_yields [OF this, of 3]
  have src: "source_yields (Some (length h)) 1 0 (h @ [(TakeStart 3 (Ref 0), 1)])
      [IterValue (Num 0), IterValue (Num 1), IterValue (Num 2)]
      [(IterateYield f (Num 2), 3), (TakeStart 3 (Ref 0), 1)]"
    by (simp add: h_def f_def pulls_of_def eval_nat_numeral)
  have fi: "first_items (nat 3) [Num 0, Num 1, Num 2]
      [IterValue (Num 0), IterValue (Num 1), IterValue (Num 2)]"
    by (simp add: first_items_def)
  have fuel: "1 + length [Num 0, Num 1, Num 2] + 3 \<le> (9::nat)" by simp
  from take_yields_prefix_within_n_pulls [OF it src fi fuel, THEN conjunct1]
  have "and_then (take_op 3 (Ref 0) h) (intoArray 9) =
      Return (Arr [Num 0, Num 1, Num 2]) [(IterateYield f (Num 2), 3), (Completed, 4)]"
    by (simp add: h_def eval_nat_numeral)
  then show "and_then (iterate (\<lambda>v. case v of Num i \<Rightarrow> Num (i + 1) | _ \<Rightarrow> v) (Num 0) [])
     (\<lambda>source h. and_then (take_op 3 source h) (intoArray 9)) =
     Return (Arr [Num 0, Num 1, Num 2])
       [(IterateYield (\<lambda>v. case v of Num i \<Rightarrow> Num (i + 1) | _ \<Rightarrow> v) (Num 2), 3), (Completed, 4)]"
    by (simp add: iterate_def new_generator_def alloc_def h_def f_def)
next
  define A where "A = Arr [Num 1, Num 2]"
  define h where "h = [(IterateStart (\<lambda>i. A) A, 0::nat), (FlattenStart (Ref 0), 0)]"
  have it: "iter (Ref 1) (h @ [(TakeStart 3 (Ref 1), 1)]) = Return 1 (h @ [(TakeStart 3 (Ref 1), 1)])"
    by (simp add: iter_def)
  have src: "source_yields (Some (length h)) 5 1 (h @ [(TakeStart 3 (Ref 1), 1)])
      [IterValue (Num 1), IterValue (Num 2), IterValue (Num 1)]
      [(IterateYield (\<lambda>i. A) A, 2), (FlattenDeleg 0 6, 3), (TakeStart 3 (Ref 1), 1),
       (ArrayIterator [], 3), (Completed, 3), (ArrayIterator [Num 2], 1), (FlattenFor 5, 1)]"
    unfolding h_def
    by (intro source_yields_pull_from
          [where h' = "[(IterateYield (\<lambda>i. A) A, 1), (FlattenDeleg 0 4, 1), (TakeStart 3 (Ref 1), 1),
             (ArrayIterator [Num 2], 1), (FlattenFor 3, 1)]"]
        source_yields_pull_from
          [where h' = "[(IterateYield (\<lambda>i. A) A, 1), (FlattenDeleg 0 4, 2), (TakeStart 3 (Ref 1), 1),
             (ArrayIterator [], 2), (FlattenFor 3, 2)]"]
        source_yields_pull_from
          [where h' = "[(IterateYield (\<lambda>i. A) A, 2), (FlattenDeleg 0 6, 3), (TakeStart 3 (Ref 1), 1),
             (ArrayIterator [], 3), (Completed, 3), (ArrayIterator [Num 2], 1), (FlattenFor 5, 1)]"]
        source_yields.no_pull)
      (simp_all add: run_simps A_def)
  have fi: "first_items (nat 3) [Num 1, Num 2, Num 1]
      [IterValue (Num 1), IterValue (Num 2), IterValue (Num 1)]"
    by (simp add: first_items_def)
  have fuel: "5 + length [Num 1, Num 2, Num 1] + 3 \<le> (12::nat)" by simp
  from take_yields_prefix_within_n_pulls [OF it src fi fuel, THEN conjunct1]
  have "and_then (take_op 3 (Ref 1) h) (intoArray 12) =
      Return (Arr [Num 1, Num 2, Num 1])
       [(IterateYield (\<lambda>i. A) A, 2), (FlattenDeleg 0 6, 3),
        (Completed, 4), (ArrayIterator [], 3), (Completed, 3), (ArrayIterator [Num 2], 1),
        (FlattenFor 5, 1)]"
    by (simp add: h_def eval_nat_numeral)
  then show "and_then (cycle (Arr [Num 1, Num 2]) [])
     (\<lambda>source h. and_then (take_op 3 source h) (intoArray 12)) =
     Return (Arr [Num 1, Num 2, Num 1])
       [(IterateYield (\<lambda>i. Arr [Num 1, Num 2]) (Arr [Num 1, Num 2]), 2), (FlattenDeleg 0 6, 3),
        (Completed, 4), (ArrayIterator [], 3), (Completed, 3), (ArrayIterator [Num 2], 1),
        (FlattenFor 5, 1)]"
    by (simp add: cycle_def iterate_def flatten_def new_generator_def alloc_def h_def A_def)
qed

section \<open>\<open>every\<close> consumes the whole source, \<open>some\<close> stops at the first match\<close>

lemma source_yields_None_Cons:
  assumes "source_yields None F s h (r # rs) h''" and "F \<le> fuel"
  shows "\<exists>h'. iter_next fuel s h = Return r h' \<and> source_yields None F s h' rs h''"
  using source_yields_Cons [OF assms(1)] assms(2) by auto

lemma reduce_loop_drains_source:
  assumes "source_yields None F s h (map IterValue xs @ [IterDone]) hF"
    and "F + length xs + 1 \<le> fuel"
    and "\<And>it acc h. f it acc h = Return (g it acc) h"
  shows "reduce_loop fuel f acc s h = Return (foldl (\<lambda>a it. g it a) acc xs) hF"
  using assms(1,2)
proof (induction xs arbitrary: h acc fuel)
  case Nil
  then obtain n where fuel: "fuel = Suc n" and n: "F \<le> n" by (cases fuel) simp_all
  from Nil.prems(1) have "source_yields None F s h (IterDone # []) hF" by simp
  from source_yields_None_Cons [OF this n]
  have "iter_next n s h = Return IterDone hF" by (auto dest: source_yields_Nil)
  then show ?case by (simp add: fuel)
next
  case (Cons x xs)
  then obtain n where fuel: "fuel = Suc n" and n: "F + length xs + 1 \<le> n"
    by (cases fuel) simp_all
  then have Fn: "F \<le> n" by simp
  from Cons.prems(1)
  have "source_yields None F s h (IterValue x # (map IterValue xs @ [IterDone])) hF" by simp
  from source_yields_None_Cons [OF this Fn] obtain h' where
    step: "iter_next n s h = Return (IterValue x) h'"
    and rest: "source_yields None F s h' (map IterValue xs @ [IterDone]) hF"
    by blast
  from Cons.IH [OF rest n, of "g x acc"] step show ?case
    by (simp add: fuel assms(3))
qed

lemma foldl_js_and:
  "foldl (\<lambda>a it. js_and a (Bool (p it))) (Bool b) xs = Bool (b \<and> list_all p xs)"
  by (induction xs arbitrary: b) (simp_all add: js_and_def)

lemma some_loop_no_match:
  assumes "source_yields None F s h (map IterValue xs @ [IterDone]) hF"
    and "F + length xs + 1 \<le> fuel" and "\<not> list_ex p xs"
  shows "some_loop fuel p s h = Return (Bool False) hF"
  using assms
proof (induction xs arbitrary: h fuel)
  case Nil
  then obtain n where fuel: "fuel = Suc n" and n: "F \<le> n" by (cases fuel) simp_all
  from Nil.prems(1) have "source_yields None F s h (IterDone # []) hF" by simp
  from source_yields_None_Cons [OF this n]
  have "iter_next n s h = Return IterDone hF" by (auto dest: source_yields_Nil)
  then show ?case by (simp add: fuel)
next
  case (Cons x xs)
  then obtain n where fuel: "fuel = Suc n" and n: "F + length xs + 1 \<le> n"
    by (cases fuel) simp_all
  then have Fn: "F \<le> n" by simp
  from Cons.prems(1)
  have "source_yields None F s h (IterValue x # (map IterValue xs @ [IterDone])) hF" by simp
  from source_yields_None_Cons [OF this Fn] obtain h' where
    step: "iter_next n s h = Return (IterValue x) h'"
    and rest: "source_yields None F s h' (map IterValue xs @ [IterDone]) hF"
    by blast
  from Cons.prems(3) have "\<not> p x" "\<not> list_ex p xs" by simp_all
  with Cons.IH [OF rest n] step show ?case by (simp add: fuel)
qed

lemma some_loop_first_match:
  assumes "source_yields None F s h (map IterValue (ys @ [x])) hj"
    and "F + length ys + 1 \<le> fuel" and "\<not> list_ex p ys" and "p x"
  shows "some_loop fuel p s h =
           and_then (gen_return (fuel - Suc (length ys)) s hj) (\<lambda>u. Return (Bool True))"
  using assms(1,2,3)
proof (induction ys arbitrary: h fuel)
  case Nil
  then obtain n where fuel: "fuel = Suc n" and n: "F \<le> n" by (cases fuel) simp_all
  from Nil.prems(1) have "source_yields None F s h (IterValue x # []) hj" by simp
  from source_yields_None_Cons [OF this n]
  have "iter_next n s h = Return (IterValue x) hj" by (auto dest: source_yields_Nil)
  with assms(4) show ?case by (simp add: fuel)
next
  case (Cons y ys)
  then obtain n where fuel: "fuel = Suc n" and n: "F + length ys + 1 \<le> n"
    by (cases fuel) simp_all
  then have Fn: "F \<le> n" by simp
  from Cons.prems(1)
  have "source_yields None F s h (IterValue y # map IterValue (ys @ [x])) hj" by simp
  from source_yields_None_Cons [OF this Fn] obtain h' where
    step: "iter_next n s h = Return (IterValue y) h'"
    and rest: "source_yields None F s h' (map IterValue (ys @ [x])) hj"
    by blast
  from Cons.prems(3) have "\<not> p y" "\<not> list_ex p ys" by simp_all
  with Cons.IH [OF rest n] step show ?case by (simp add: fuel)
qed

text \<open>
  C7. \<open>every(pred)\<close> and \<open>some(pred)\<close> on any source that \<open>iter\<close> accepts. When
  the source yields the items \<open>xs\<close> and then reports that it is done, \<open>every\<close>
  returns the conjunction of the predicate over all of \<open>xs\<close> and leaves the heap
  \<open>hF\<close> of the exhausted source, whatever the predicate answered on the way; \<open>some\<close>
  returns \<open>false\<close> from the same heap when no item satisfies the predicate. When the
  first items of the source, finite or not, are \<open>ys\<close>, none of which satisfies the
  predicate, and then \<open>x\<close>, which does, \<open>some\<close> returns \<open>true\<close> and the heap is the
  one that these \<open>length ys + 1\<close> calls of \<open>next\<close> leave, with the source closed: no
  further item was pulled.
\<close>

theorem every_drains_and_some_stops_early:
  assumes "iter source h = Return s h0"
  shows "(source_yields None F s h0 (map IterValue xs @ [IterDone]) hF \<longrightarrow>
            F + length xs + 1 \<le> fuel \<longrightarrow>
            every fuel p source h = Return (Bool (list_all p xs)) hF \<and>
            (\<not> list_ex p xs \<longrightarrow> some fuel p source h = Return (Bool False) hF)) \<and>
         (source_yields None F s h0 (map IterValue (ys @ [x])) hj \<longrightarrow> closes F s hj hC \<longrightarrow>
            F + length ys + 1 \<le> fuel \<longrightarrow> \<not> list_ex p ys \<longrightarrow> p x \<longrightarrow>
            some fuel p source h = Return (Bool True) hC)"
proof (intro conjI impI)
  assume src: "source_yields None F s h0 (map IterValue xs @ [IterDone]) hF"
    and fuel: "F + length xs + 1 \<le> fuel"
  have "every fuel p source h =
      reduce_loop fuel (\<lambda>it acc. Return (js_and acc (Bool (p it)))) (Bool True) s h0"
    by (simp add: every_def reduce_def assms iter_def [of "Ref s"])
  also have "\<dots> = Return (foldl (\<lambda>a it. js_and a (Bool (p it))) (Bool True) xs) hF"
    by (rule reduce_loop_drains_source [OF src fuel]) simp
  finally show "every fuel p source h = Return (Bool (list_all p xs)) hF"
    by (simp add: foldl_js_and)
  assume "\<not> list_ex p xs"
  from some_loop_no_match [OF src fuel this]
  show "some fuel p source h = Return (Bool False) hF"
    by (simp add: some_def assms)
next
  assume src: "source_yields None F s h0 (map IterValue (ys @ [x])) hj"
    and cl: "closes F s hj hC"
    and fuel: "F + length ys + 1 \<le> fuel" and no: "\<not> list_ex p ys" and px: "p x"
  from fuel have "F \<le> fuel - Suc (length ys)" by simp
  with cl have "gen_return (fuel - Suc (length ys)) s hj = Return () hC"
    by (simp add: closes_def)
  with some_loop_first_match [OF src fuel no px]
  show "some fuel p source h = Return (Bool True) hC"
    by (simp add: some_def assms)
qed

text \<open>
  The theorem at the array \<open>[1, 2, 4]\<close> and at \<open>range(3, 1)\<close> and \<open>range(3, 1, 2)\<close>,
  which are \<open>take\<close> generators over \<open>iterate\<close> generators, with the predicate
  \<open>even\<close>: \<open>every\<close> leaves each source exhausted although its first item already
  fails, \<open>some\<close> stops after the second item.
\<close>

theorem every_drains_and_some_stops_early_witness:
  "every 9 (\<lambda>v. case v of Num i \<Rightarrow> even i | _ \<Rightarrow> False) (Arr [Num 1, Num 2, Num 4]) [] =
     Return (Bool False) [(ArrayIterator [], 4)] \<and>
   some 9 (\<lambda>v. case v of Num i \<Rightarrow> even i | _ \<Rightarrow> False) (Arr [Num 1, Num 2, Num 4]) [] =
     Return (Bool True) [(ArrayIterator [Num 4], 2)] \<and>
   and_then (range_op 3 1 1 []) (every 9 (\<lambda>v. case v of Num i \<Rightarrow> even i | _ \<Rightarrow> False)) =
     Return (Bool False)
       [(IterateYield (\<lambda>i. case i of Num j \<Rightarrow> Num (j + 1) | _ \<Rightarrow> i) (Num 3), 3), (Completed, 4)] \<and>
   and_then (range_op 3 1 1 []) (some 9 (\<lambda>v. case v of Num i \<Rightarrow> even i | _ \<Rightarrow> False)) =
     Return (Bool True)
       [(IterateYield (\<lambda>i. case i of Num j \<Rightarrow> Num (j + 1) | _ \<Rightarrow> i) (Num 2), 2), (Completed, 2)] \<and>
   and_then (range_op 3 1 2 []) (some 9 (\<lambda>v. case v of Num i \<Rightarrow> even i | _ \<Rightarrow> False)) =
     Return (Bool False)
       [(IterateYield (\<lambda>i. case i of Num j \<Rightarrow> Num (j + 2) | _ \<Rightarrow> i) (Num 5), 3), (Completed, 4)]"
proof -
  define p where "p = (\<lambda>v. case v of Num i \<Rightarrow> even i | _ \<Rightarrow> False)"
  have array: "every 9 p (Arr [Num 1, Num 2, Num 4]) [] = Return (Bool False) [(ArrayIterator [], 4)] \<and>
      some 9 p (Arr [Num 1, Num 2, Num 4]) [] = Return (Bool True) [(ArrayIterator [Num 4], 2)]"
  proof -
    define h0 where "h0 = [(ArrayIterator [Num 1, Num 2, Num 4], 0::nat)]"
    have it: "iter (Arr [Num 1, Num 2, Num 4]) [] = Return 0 h0"
      by (simp add: iter_def alloc_def h0_def)
    have st: "state_of h0 0 = ArrayIterator [Num 1, Num 2, Num 4]"
      "state_of h0 0 = ArrayIterator ([Num 1, Num 2] @ [Num 4])"
      by (simp_all add: h0_def state_of_def)
    have all: "source_yields None (Suc 0) 0 h0 (map IterValue [Num 1, Num 2, Num 4] @ [IterDone])
        [(ArrayIterator [], 4)]"
      using array_iterator_yields_all [OF st(1), of None]
      by (simp add: h0_def pulls_of_def eval_nat_numeral)
    have two: "source_yields None (Suc 0) 0 h0 (map IterValue ([Num 1] @ [Num 2]))
        [(ArrayIterator [Num 4], 2)]"
      using array_iterator_yields [OF st(2), of None]
      by (simp add: h0_def pulls_of_def eval_nat_numeral)
    have close: "closes (Suc 0) 0 [(ArrayIterator [Num 4], 2)] [(ArrayIterator [Num 4], 2)]"
      unfolding closes_def
    proof (intro allI impI)
      fix fuel :: nat
      assume "Suc 0 \<le> fuel"
      then obtain k where "fuel = Suc k" by (cases fuel) simp_all
      then show "gen_return fuel 0 [(ArrayIterator [Num 4], 2)] =
          Return () [(ArrayIterator [Num 4], 2)]"
        by (simp add: state_of_def)
    qed
    note inst = every_drains_and_some_stops_early [OF it, of "Suc 0" "[Num 1, Num 2, Num 4]"
        "[(ArrayIterator [], 4)]" 9 p "[Num 1]" "Num 2" "[(ArrayIterator [Num 4], 2)]"
        "[(ArrayIterator [Num 4], 2)]"]
    from inst [THEN conjunct1, rule_format, OF all, THEN conjunct1]
    have "every 9 p (Arr [Num 1, Num 2, Num 4]) [] = Return (Bool False) [(ArrayIterator [], 4)]"
      by (simp add: p_def)
    moreover from inst [THEN conjunct2, rule_format, OF two close]
    have "some 9 p (Arr [Num 1, Num 2, Num 4]) [] = Return (Bool True) [(ArrayIterator [Num 4], 2)]"
      by (simp add: p_def)
    ultimately show ?thesis by simp
  qed
  have range1: "and_then (range_op 3 1 1 []) (every 9 p) =
      Return (Bool False)
        [(IterateYield (\<lambda>i. case i of Num j \<Rightarrow> Num (j + 1) | _ \<Rightarrow> i) (Num 3), 3), (Completed, 4)] \<and>
    and_then (range_op 3 1 1 []) (some 9 p) =
      Return (Bool True)
        [(IterateYield (\<lambda>i. case i of Num j \<Rightarrow> Num (j + 1) | _ \<Rightarrow> i) (Num 2), 2), (Completed, 2)]"
  proof -
    define f where "f = (\<lambda>i. case i of Num j \<Rightarrow> Num (j + 1) | _ \<Rightarrow> i)"
    define h where "h = [(IterateStart f (Num 1), 0::nat), (TakeStart 3 (Ref 0), 0)]"
    have r: "range_op 3 1 1 [] = Return (Ref 1) h"
      by (simp add: range_op_def iterate_def take_op_def new_generator_def alloc_def h_def f_def)
    have it: "iter (Ref 1) h = Return 1 h" by (simp add: iter_def)
    have two: "source_yields None 2 1 h (map IterValue ([Num 1] @ [Num 2]))
        [(IterateYield f (Num 2), 2), (TakeYield 3 0 1, 2)]"
      unfolding h_def
      by (simp, intro source_yields_pull_from
            [where h' = "[(IterateYield f (Num 1), 1), (TakeYield 3 0 0, 1)]"]
          source_yields_pull_from
            [where h' = "[(IterateYield f (Num 2), 2), (TakeYield 3 0 1, 2)]"]
          source_yields.no_pull)
        (simp_all add: run_simps f_def)
    have rest: "source_yields None 2 1 [(IterateYield f (Num 2), 2), (TakeYield 3 0 1, 2)]
        [IterValue (Num 3), IterDone] [(IterateYield f (Num 3), 3), (Completed, 4)]"
      by (intro source_yields_pull_from
            [where h' = "[(IterateYield f (Num 3), 3), (TakeYield 3 0 2, 3)]"]
          source_yields_pull_from
            [where h' = "[(IterateYield f (Num 3), 3), (Completed, 4)]"]
          source_yields.no_pull)
        (simp_all add: run_simps f_def)
    from source_yields_append [OF two rest]
    have all: "source_yields None 2 1 h (map IterValue [Num 1, Num 2, Num 3] @ [IterDone])
        [(IterateYield f (Num 3), 3), (Completed, 4)]"
      by simp
    have close: "closes 2 1 [(IterateYield f (Num 2), 2), (TakeYield 3 0 1, 2)]
        [(IterateYield f (Num 2), 2), (Completed, 2)]"
      unfolding closes_def
    proof (intro allI impI)
      fix fuel :: nat
      assume "2 \<le> fuel"
      then obtain k where "fuel = Suc k" by (cases fuel) simp_all
      then show "gen_return fuel 1 [(IterateYield f (Num 2), 2), (TakeYield 3 0 1, 2)] =
          Return () [(IterateYield f (Num 2), 2), (Completed, 2)]"
        by (simp add: run_simps)
    qed
    note inst = every_drains_and_some_stops_early [OF it, of 2 "[Num 1, Num 2, Num 3]"
        "[(IterateYield f (Num 3), 3), (Completed, 4)]" 9 p "[Num 1]" "Num 2"
        "[(IterateYield f (Num 2), 2), (TakeYield 3 0 1, 2)]"
        "[(IterateYield f (Num 2), 2), (Completed, 2)]"]
    from inst [THEN conjunct1, rule_format, OF all, THEN conjunct1]
    have "every 9 p (Ref 1) h = Return (Bool False) [(IterateYield f (Num 3), 3), (Completed, 4)]"
      by (simp add: p_def)
    moreover from inst [THEN conjunct2, rule_format, OF two close]
    have "some 9 p (Ref 1) h = Return (Bool True) [(IterateYield f (Num 2), 2), (Completed, 2)]"
      by (simp add: p_def)
    ultimately show ?thesis by (simp add: r f_def)
  qed
  have range2: "and_then (range_op 3 1 2 []) (some 9 p) =
      Return (Bool False)
        [(IterateYield (\<lambda>i. case i of Num j \<Rightarrow> Num (j + 2) | _ \<Rightarrow> i) (Num 5), 3), (Completed, 4)]"
  proof -
    define f where "f = (\<lambda>i. case i of Num j \<Rightarrow> Num (j + 2) | _ \<Rightarrow> i)"
    define h where "h = [(IterateStart f (Num 1), 0::nat), (TakeStart 3 (Ref 0), 0)]"
    have r: "range_op 3 1 2 [] = Return (Ref 1) h"
      by (simp add: range_op_def iterate_def take_op_def new_generator_def alloc_def h_def f_def)
    have it: "iter (Ref 1) h = Return 1 h" by (simp add: iter_def)
    have all: "source_yields None 2 1 h (map IterValue [Num 1, Num 3, Num 5] @ [IterDone])
        [(IterateYield f (Num 5), 3), (Completed, 4)]"
      unfolding h_def
      by (simp, intro source_yields_pull_from
            [where h' = "[(IterateYield f (Num 1), 1), (TakeYield 3 0 0, 1)]"]
          source_yields_pull_from
            [where h' = "[(IterateYield f (Num 3), 2), (TakeYield 3 0 1, 2)]"]
          source_yields_pull_from
            [where h' = "[(IterateYield f (Num 5), 3), (TakeYield 3 0 2, 3)]"]
          source_yields_pull_from
            [where h' = "[(IterateYield f (Num 5), 3), (Completed, 4)]"]
          source_yields.no_pull)
        (simp_all add: run_simps f_def)
    from every_drains_and_some_stops_early [OF it, of 2 "[Num 1, Num 3, Num 5]"
        "[(IterateYield f (Num 5), 3), (Completed, 4)]" 9 p,
        THEN conjunct1, rule_format, OF all, THEN conjunct2]
    have "some 9 p (Ref 1) h = Return (Bool False) [(IterateYield f (Num 5), 3), (Completed, 4)]"
      by (simp add: p_def)
    then show ?thesis by (simp add: r f_def)
  qed
  from array range1 range2 show ?thesis unfolding p_def by simp
qed

section \<open>\<open>intoMap\<close> and \<open>intoObj\<close> on duplicate keys\<close>

text \<open>
  C8. On the pairs \<open>[['__proto__', 1], ['a', 2], ['__proto__', 3]]\<close>, whatever the
  host's \<open>ToString\<close>, \<open>intoObj\<close> returns the object \<open>{a: 2}\<close>: the key
  \<open>__proto__\<close> is bound to nothing, not to the value \<open>3\<close> of its last occurrence,
  because both assignments \<open>obj['__proto__'] = v\<close> run the setter inherited from
  \<open>Object.prototype\<close>. \<open>intoMap\<close> on the same pairs binds \<open>'__proto__'\<close> to \<open>3\<close>
  and \<open>'a'\<close> to \<open>2\<close>. On \<open>[['a', 1], ['b', 2], ['a', 3]]\<close> \<open>intoObj\<close> returns
  \<open>{a: 3, b: 2}\<close>.
\<close>

theorem intoObj_binds_nothing_to_the_key_proto:
  "intoObj 9 toString
     (Arr [Arr [Str ''__proto__'', Num 1], Arr [Str ''a'', Num 2], Arr [Str ''__proto__'', Num 3]])
     [] =
     Return (Obj [(''a'', Num 2)])
       [(ArrayIterator [], 4), (ArrayIterator [], 2), (ArrayIterator [], 2), (ArrayIterator [], 2)] \<and>
   map_of [(''a'', Num 2)] ''__proto__'' = None \<and>
   intoMap 9
     (Arr [Arr [Str ''__proto__'', Num 1], Arr [Str ''a'', Num 2], Arr [Str ''__proto__'', Num 3]])
     [] =
     Return (MapV [(Str ''__proto__'', Num 3), (Str ''a'', Num 2)]) [(ArrayIterator [], 4)] \<and>
   intoObj 9 toString (Arr [Arr [Str ''a'', Num 1], Arr [Str ''b'', Num 2], Arr [Str ''a'', Num 3]])
     [] =
     Return (Obj [(''a'', Num 3), (''b'', Num 2)])
       [(ArrayIterator [], 4), (ArrayIterator [], 2), (ArrayIterator [], 2), (ArrayIterator [], 2)]"
  by (simp add: run_simps)

section \<open>\<open>zip\<close> of no sources\<close>

lemma next_zip_nothing:
  assumes "state_of h g = ZipStart [] \<or> state_of h g = ZipYield []"
  shows "iter_next (Suc n) g h = Return (IterValue (Arr [])) (set_state g (ZipYield []) (count_pull g h))"
  using assms by (auto simp: zip_loop_def yield_def)

lemma pull_times_zip_nothing:
  assumes "state_of h g = ZipStart [] \<or> state_of h g = ZipYield []"
  shows "\<exists>h'. pull_times (Suc n) k g h = Return (replicate k (IterValue (Arr []))) h'"
  using assms
proof (induction k arbitrary: h)
  case 0
  show ?case by simp
next
  case (Suc k)
  from Suc.prems have gl: "g < length h" by (auto simp: state_of_allocated)
  define h1 where "h1 = set_state g (ZipYield []) (count_pull g h)"
  have "state_of h1 g = ZipStart [] \<or> state_of h1 g = ZipYield []"
    using gl by (simp add: h1_def state_of_set_state)
  from Suc.IH [OF this] obtain h' where
    "pull_times (Suc n) k g h1 = Return (replicate k (IterValue (Arr []))) h'"
    by blast
  then show ?case
    using next_zip_nothing [OF Suc.prems, of n] by (simp add: h1_def)
qed

lemma array_from_zip_nothing:
  assumes "state_of h g = ZipStart [] \<or> state_of h g = ZipYield []"
  shows "array_from fuel g h = OutOfFuel"
  using assms
proof (induction fuel arbitrary: h)
  case 0
  show ?case by simp
next
  case (Suc fuel)
  from Suc.prems have gl: "g < length h" by (auto simp: state_of_allocated)
  show ?case
  proof (cases fuel)
    case 0
    then show ?thesis by simp
  next
    case (Suc n)
    define h1 where "h1 = set_state g (ZipYield []) (count_pull g h)"
    have "state_of h1 g = ZipStart [] \<or> state_of h1 g = ZipYield []"
      using gl by (simp add: h1_def state_of_set_state)
    from Suc.IH [OF this] have "array_from fuel g h1 = OutOfFuel" .
    then show ?thesis
      using next_zip_nothing [OF Suc.prems, of n] by (simp add: Suc h1_def)
  qed
qed

text \<open>
  C10. \<open>zip()\<close> with no source creates a generator that never reports done: any number
  \<open>k\<close> of calls of \<open>next\<close> in a row all return the empty tuple, in every heap and with
  any fuel above zero; so draining it into an array does not return, whatever the fuel.
\<close>

theorem zip_of_no_sources_never_ends:
  "zip_op [] h = Return (Ref (length h)) (h @ [(ZipStart [], 0)]) \<and>
   (\<exists>h'. pull_times (Suc fuel) k (length h) (h @ [(ZipStart [], 0)]) =
      Return (replicate k (IterValue (Arr []))) h') \<and>
   and_then (zip_op [] h) (intoArray fuel) = OutOfFuel"
proof -
  have st: "state_of (h @ [(ZipStart [], 0)]) (length h) = ZipStart [] \<or>
      state_of (h @ [(ZipStart [], 0)]) (length h) = ZipYield []"
    by (simp add: state_of_alloc)
  have z: "zip_op [] h = Return (Ref (length h)) (h @ [(ZipStart [], 0)])"
    by (simp add: zip_op_def new_generator_def alloc_def)
  have "and_then (zip_op [] h) (intoArray fuel) = OutOfFuel"
    by (simp add: z intoArray_def iter_def array_from_zip_nothing [OF st])
  with z pull_times_zip_nothing [OF st, of fuel k] show ?thesis by blast
qed


section \<open>Composition is lazy for generator operators, eager for \<open>drop\<close>\<close>

lemma lazy_operator_allocates:
  "\<exists>cell. lazy_operator op1 v h = Return (Ref (length h)) (h @ [cell]) \<and> never_resumed cell"
  by (cases op1)
    (simp_all add: take_op_def dropWhile_op_def map_op_def tap_def filter_op_def remove_op_def
      interpose_def flatten_def new_generator_def alloc_def)

lemma nested_lazy_operators:
  "\<exists>new. nested_application (map lazy_operator chain) v h =
       Return (if chain = [] then v else Ref (length h + length chain - 1)) (h @ new) \<and>
     length new = length chain \<and> list_all never_resumed new"
proof (induction chain arbitrary: v h)
  case Nil
  show ?case by simp
next
  case (Cons op1 chain)
  from lazy_operator_allocates [of op1 v h] obtain cell where
    c: "lazy_operator op1 v h = Return (Ref (length h)) (h @ [cell])" "never_resumed cell"
    by blast
  from Cons.IH [of "Ref (length h)" "h @ [cell]"] obtain new where
    n: "nested_application (map lazy_operator chain) (Ref (length h)) (h @ [cell]) =
       Return (if chain = [] then Ref (length h) else Ref (length (h @ [cell]) + length chain - 1))
         ((h @ [cell]) @ new)"
      "length new = length chain" "list_all never_resumed new"
    by blast
  have "nested_application (map lazy_operator (op1 # chain)) v h =
      Return (Ref (length h + length (op1 # chain) - 1)) (h @ (cell # new))"
    using c n by (cases "chain = []") simp_all
  moreover have "length (cell # new) = length (op1 # chain)" using n by simp
  moreover have "list_all never_resumed (cell # new)" using c n by simp
  ultimately show ?case by (intro exI [of _ "cell # new"]) simp
qed

lemma drop_loop_pulls_source:
  assumes "source_yields None F s h rs hF" and "first_items k xs rs" and "F \<le> fuel"
  shows "drop_loop fuel k s h = Return () hF"
  using assms(1,2)
proof (induction xs arbitrary: h k rs)
  case Nil
  from Nil.prems(2) consider "rs = []" "k = 0" | k' where "rs = [IterDone]" "k = Suc k'"
    by (cases k) (auto simp: first_items_def)
  then show ?case
  proof cases
    case 1
    with Nil.prems(1) show ?thesis by (auto dest: source_yields_Nil)
  next
    case 2
    with Nil.prems(1) source_yields_Cons [of None F s h IterDone "[]" hF] assms(3)
    have "iter_next fuel s h = Return IterDone hF" by (auto dest: source_yields_Nil)
    with 2 show ?thesis by simp
  qed
next
  case (Cons x xs)
  from Cons.prems(2) obtain rs' k' where rs: "rs = IterValue x # rs'" and k: "k = Suc k'"
    and fi: "first_items k' xs rs'"
    by (cases k) (auto simp: first_items_def)
  from Cons.prems(1) source_yields_Cons [of None F s h "IterValue x" rs' hF] assms(3)
  obtain h' where step: "iter_next fuel s h = Return (IterValue x) h'"
    and rest: "source_yields None F s h' rs' hF"
    by (auto simp: rs)
  from Cons.IH [OF rest fi] step show ?case by (simp add: k)
qed

text \<open>
  C9, as amended. Composing a non-empty chain of the operators that are generator
  functions (\<open>take\<close>, \<open>dropWhile\<close>, \<open>map\<close>, \<open>tap\<close>, \<open>filter\<close>, \<open>remove\<close>,
  \<open>interpose\<close>, \<open>flatten\<close>) over any source that \<open>iter\<close> accepts leaves the heap
  as \<open>iter\<close> left it (unchanged, or with one fresh array iterator) and adds one generator
  object per operator, each never resumed: no \<open>next\<close> was called on any object and no
  operator body ran. \<open>drop(n)\<close> is different. When the first outcomes \<open>rs\<close> of the
  source are \<open>n\<close> items, or fewer items and then the report that it is done, then at the
  moment the chain is composed \<open>drop(n)\<close> has already made these \<open>length rs\<close> calls of
  \<open>next\<close>: the heap is the one they leave, and the result is the source iterator itself.
\<close>

theorem generator_operators_compose_lazily_and_drop_eagerly:
  assumes "iter source h = Return s h0"
  shows "(chain \<noteq> [] \<longrightarrow>
            (h0 = h \<or> (\<exists>xs. h0 = h @ [(ArrayIterator xs, 0)])) \<and>
            (\<exists>new. pipe source (map lazy_operator chain) h =
                Return (Ref (length h0 + length chain - 1)) (h0 @ new) \<and>
              length new = length chain \<and> list_all never_resumed new)) \<and>
         (source_yields None F s h0 rs hF \<longrightarrow> first_items (nat n) xs rs \<longrightarrow> F \<le> fuel \<longrightarrow>
            pipe source [drop_op fuel n] h = Return (Ref s) hF)"
proof (intro conjI impI)
  assume ne: "chain \<noteq> []"
  from iter_only_allocates [OF assms]
  show "h0 = h \<or> (\<exists>xs. h0 = h @ [(ArrayIterator xs, 0)])" .
  from ne have "map lazy_operator chain \<noteq> []" by simp
  then have "pipe source (map lazy_operator chain) h =
      nested_application (map lazy_operator chain) (Ref s) h0"
    by (simp add: pipe_def assms pipe_f_rev rev_map [symmetric] del: rev_map)
  with nested_lazy_operators [of chain "Ref s" h0] ne
  show "\<exists>new. pipe source (map lazy_operator chain) h =
          Return (Ref (length h0 + length chain - 1)) (h0 @ new) \<and>
        length new = length chain \<and> list_all never_resumed new"
    by simp
next
  assume "source_yields None F s h0 rs hF" and "first_items (nat n) xs rs" and "F \<le> fuel"
  from drop_loop_pulls_source [OF this]
  show "pipe source [drop_op fuel n] h = Return (Ref s) hF"
    by (simp add: pipe_def assms drop_op_def iter_def [of "Ref s"])
qed

text \<open>
  The theorem at a chain of all eight operators over an array, and at \<open>drop\<close> over an
  array of four items, over an array shorter than \<open>n\<close>, and over the generator
  \<open>range(5)\<close>.
\<close>

theorem generator_operators_compose_lazily_and_drop_eagerly_witness:
  "(\<exists>new. pipe (Arr [Num 1, Num 2, Num 3, Num 4])
       (map lazy_operator [Take 2, DropWhile (\<lambda>v. v = Num 1), Map (\<lambda>v. Arr [v]), Tap (\<lambda>v. ()),
          Filter (\<lambda>v. v = Num 1), Remove (\<lambda>v. v = Num 1), Interpose (Str ''*''), Flatten]) [] =
     Return (Ref 8) ([(ArrayIterator [Num 1, Num 2, Num 3, Num 4], 0)] @ new) \<and>
     length new = 8 \<and> list_all never_resumed new) \<and>
   pipe (Arr [Num 1, Num 2, Num 3, Num 4]) [drop_op 1 2] [] =
     Return (Ref 0) [(ArrayIterator [Num 3, Num 4], 2)] \<and>
   pipe (Arr [Num 1, Num 2]) [drop_op 1 5] [] = Return (Ref 0) [(ArrayIterator [], 3)] \<and>
   and_then (range_op 5 0 1 []) (\<lambda>source. pipe source [drop_op 2 2]) =
     Return (Ref 1)
       [(IterateYield (\<lambda>i. case i of Num j \<Rightarrow> Num (j + 1) | _ \<Rightarrow> i) (Num 1), 2),
        (TakeYield 5 0 1, 2)]"
proof (intro conjI)
  define h0 where "h0 = [(ArrayIterator [Num 1, Num 2, Num 3, Num 4], 0::nat)]"
  have it: "iter (Arr [Num 1, Num 2, Num 3, Num 4]) [] = Return 0 h0"
    by (simp add: iter_def alloc_def h0_def)
  note inst = generator_operators_compose_lazily_and_drop_eagerly [OF it,
      of "[Take 2, DropWhile (\<lambda>v. v = Num 1), Map (\<lambda>v. Arr [v]), Tap (\<lambda>v. ()),
          Filter (\<lambda>v. v = Num 1), Remove (\<lambda>v. v = Num 1), Interpose (Str ''*''), Flatten]"
      "Suc 0" "map IterValue [Num 1, Num 2]" "[(ArrayIterator [Num 3, Num 4], 2)]" 2
      "[Num 1, Num 2]" 1]
  from inst [THEN conjunct1]
  show "\<exists>new. pipe (Arr [Num 1, Num 2, Num 3, Num 4])
       (map lazy_operator [Take 2, DropWhile (\<lambda>v. v = Num 1), Map (\<lambda>v. Arr [v]), Tap (\<lambda>v. ()),
          Filter (\<lambda>v. v = Num 1), Remove (\<lambda>v. v = Num 1), Interpose (Str ''*''), Flatten]) [] =
     Return (Ref 8) ([(ArrayIterator [Num 1, Num 2, Num 3, Num 4], 0)] @ new) \<and>
     length new = 8 \<and> list_all never_resumed new"
    by (simp add: h0_def eval_nat_numeral)
  have "state_of h0 0 = ArrayIterator ([Num 1, Num 2] @ [Num 3, Num 4])"
    by (simp add: h0_def state_of_def)
  from array_iterator_yields [OF this, of None]
  have src: "source_yields None (Suc 0) 0 h0 (map IterValue [Num 1, Num 2])
      [(ArrayIterator [Num 3, Num 4], 2)]"
    by (simp add: h0_def pulls_of_def eval_nat_numeral)
  have fi: "first_items (nat 2) [Num 1, Num 2] (map IterValue [Num 1, Num 2])"
    by (simp add: first_items_def)
  from inst [THEN conjunct2, rule_format, OF src fi]
  show "pipe (Arr [Num 1, Num 2, Num 3, Num 4]) [drop_op 1 2] [] =
     Return (Ref 0) [(ArrayIterator [Num 3, Num 4], 2)]"
    by simp
next
  define h0 where "h0 = [(ArrayIterator [Num 1, Num 2], 0::nat)]"
  have it: "iter (Arr [Num 1, Num 2]) [] = Return 0 h0"
    by (simp add: iter_def alloc_def h0_def)
  have "state_of h0 0 = ArrayIterator [Num 1, Num 2]"
    by (simp add: h0_def state_of_def)
  from array_iterator_yields_all [OF this, of None]
  have src: "source_yields None (Suc 0) 0 h0 (map IterValue [Num 1, Num 2] @ [IterDone])
      [(ArrayIterator [], 3)]"
    by (simp add: h0_def pulls_of_def eval_nat_numeral)
  have fi: "first_items (nat 5) [Num 1, Num 2] (map IterValue [Num 1, Num 2] @ [IterDone])"
    by (simp add: first_items_def)
  from generator_operators_compose_lazily_and_drop_eagerly [OF it, THEN conjunct2, rule_format,
      OF src fi, of 1]
  show "pipe (Arr [Num 1, Num 2]) [drop_op 1 5] [] = Return (Ref 0) [(ArrayIterator [], 3)]"
    by simp
next
  define f where "f = (\<lambda>i. case i of Num j \<Rightarrow> Num (j + 1) | _ \<Rightarrow> i)"
  define h where "h = [(IterateStart f (Num 0), 0::nat), (TakeStart 5 (Ref 0), 0)]"
  have r: "range_op 5 0 1 [] = Return (Ref 1) h"
    by (simp add: range_op_def iterate_def take_op_def new_generator_def alloc_def h_def f_def)
  have it: "iter (Ref 1) h = Return 1 h" by (simp add: iter_def)
  have src: "source_yields None 2 1 h [IterValue (Num 0), IterValue (Num 1)]
      [(IterateYield f (Num 1), 2), (TakeYield 5 0 1, 2)]"
    unfolding h_def
    by (intro source_yields_pull_from
          [where h' = "[(IterateYield f (Num 0), 1), (TakeYield 5 0 0, 1)]"]
        source_yields_pull_from
          [where h' = "[(IterateYield f (Num 1), 2), (TakeYield 5 0 1, 2)]"]
        source_yields.no_pull)
      (simp_all add: run_simps f_def)
  have fi: "first_items (nat 2) [Num 0, Num 1] [IterValue (Num 0), IterValue (Num 1)]"
    by (simp add: first_items_def)
  from generator_operators_compose_lazily_and_drop_eagerly [OF it, THEN conjunct2, rule_format,
      OF src fi, of 2]
  have "pipe (Ref 1) [drop_op 2 2] h =
      Return (Ref 1) [(IterateYield f (Num 1), 2), (TakeYield 5 0 1, 2)]"
    by simp
  then show "and_then (range_op 5 0 1 []) (\<lambda>source. pipe source [drop_op 2 2]) =
     Return (Ref 1)
       [(IterateYield (\<lambda>i. case i of Num j \<Rightarrow> Num (j + 1) | _ \<Rightarrow> i) (Num 1), 2),
        (TakeYield 5 0 1, 2)]"
    by (simp add: r f_def)
qed

text \<open>
  C9 as stated fails for \<open>drop\<close>: building \<open>pipe(source, drop(2))\<close> over an array
  iterator of four items, without pulling the result once, has called \<open>next\<close> on the
  source twice and left two items in it.
\<close>

theorem drop_consumes_items_when_the_chain_is_composed:
  "pipe (Ref 0) [drop_op 1 2] [(ArrayIterator [Num 1, Num 2, Num 3, Num 4], 0)] =
     Return (Ref 0) [(ArrayIterator [Num 3, Num 4], 2)] \<and>
   pulls_of [(ArrayIterator [Num 3, Num 4], 2)] 0 \<noteq>
     pulls_of [(ArrayIterator [Num 1, Num 2, Num 3, Num 4], 0)] 0 \<and>
   state_of [(ArrayIterator [Num 3, Num 4], 2)] 0 \<noteq>
     state_of [(ArrayIterator [Num 1, Num 2, Num 3, Num 4], 0)] 0"
  by (simp add: run_simps)

section \<open>\<open>zip\<close> and \<open>interleave\<close> on sources of lengths 3 and 5\<close>

text \<open>
  C5. On the arrays \<open>[1, 2, 3]\<close> and \<open>['a', 'b', 'c', 'd', 'e']\<close>, \<open>zip\<close> yields the
  three tuples and stops, and so does \<open>interleave\<close> when it is given the arrays'
  iterators. Given the plain arrays, \<open>interleave\<close> normalizes them again in every round,
  so each round pulls from two fresh iterators: the first eight values are
  \<open>1, 'a', 1, 'a', 1, 'a', 1, 'a'\<close>, more than three rounds, and draining it does not
  return within the fuel.
\<close>

theorem interleave_of_arrays_never_advances:
  "and_then (zip_op [Arr [Num 1, Num 2, Num 3],
                     Arr [Str ''a'', Str ''b'', Str ''c'', Str ''d'', Str ''e'']] [])
     (intoArray 9) =
     Return (Arr [Arr [Num 1, Str ''a''], Arr [Num 2, Str ''b''], Arr [Num 3, Str ''c'']])
       [(Completed, 4), (ArrayIterator [], 4), (ArrayIterator [Str ''e''], 4)] \<and>
   and_then (interleave [Ref 0, Ref 1]
       [(ArrayIterator [Num 1, Num 2, Num 3], 0),
        (ArrayIterator [Str ''a'', Str ''b'', Str ''c'', Str ''d'', Str ''e''], 0)])
     (intoArray 12) =
     Return (Arr [Num 1, Str ''a'', Num 2, Str ''b'', Num 3, Str ''c''])
       [(ArrayIterator [], 4), (ArrayIterator [Str ''e''], 4), (Completed, 7)] \<and>
   (\<exists>h'. and_then (interleave [Arr [Num 1, Num 2, Num 3],
                     Arr [Str ''a'', Str ''b'', Str ''c'', Str ''d'', Str ''e'']] [])
     (\<lambda>itr. pipe itr [take_op 8, intoArray 12]) =
     Return (Arr [Num 1, Str ''a'', Num 1, Str ''a'', Num 1, Str ''a'', Num 1, Str ''a'']) h') \<and>
   and_then (interleave [Arr [Num 1, Num 2, Num 3],
                     Arr [Str ''a'', Str ''b'', Str ''c'', Str ''d'', Str ''e'']] [])
     (intoArray 12) = OutOfFuel"
  by (simp add: run_simps)

section \<open>\<open>flatten\<close>\<close>

text \<open>
  C6. \<open>flatten([1, [2, [3, 4]], 5])\<close> yields \<open>1, 2, 3, 4, 5\<close>. An item that is
  \<open>undefined\<close> or \<open>null\<close> is not yielded as it is: \<open>isArrayOrIter\<close> reads its
  property \<open>next\<close>, which throws a \<open>TypeError\<close>, after the items before it have been
  yielded.
\<close>

theorem flatten_throws_on_undefined_and_null_items:
  "and_then (flatten (Arr [Num 1, Arr [Num 2, Arr [Num 3, Num 4]], Num 5]) []) (intoArray 12) =
     Return (Arr [Num 1, Num 2, Num 3, Num 4, Num 5])
       [(Completed, 6), (ArrayIterator [], 4), (ArrayIterator [], 3),
        (Completed, 4), (ArrayIterator [], 3), (Completed, 3)] \<and>
   and_then (flatten (Arr [Num 1, Undefined, Num 5]) []) (intoArray 9) =
     Throw TypeError [(Completed, 2), (ArrayIterator [Num 5], 2)] \<and>
   and_then (flatten (Arr [Num 1, Null]) []) (intoArray 9) =
     Throw TypeError [(Completed, 2), (ArrayIterator [], 2)] \<and>
   isArrayOrIter Undefined = Inl TypeError \<and> isArrayOrIter Null = Inl TypeError"
  by (simp add: run_simps)

end
